theory Spec2Isabelle
  imports Main
begin

section \<open>Storage keys: \<open>getMMKVPath\<close> (storage.ts, lines 14-29)\<close>

text \<open>
  \<^verbatim>\<open>const ILLEGAL_CHARS_REGEX = /[<>:"/\\|?*]/g;\<close>
  The character class of the regular expression: the nine characters the code treats as
  illegal in a file path. Strings are lists of code units; all nine are ASCII.
\<close>

definition ILLEGAL_CHARS :: "char list" where
  "ILLEGAL_CHARS =
     [CHR ''<'', CHR ''>'', CHR '':'', CHR 0x22, CHR ''/'', CHR 0x5C, CHR ''|'', CHR ''?'', CHR ''*'']"

definition illegal :: "char \<Rightarrow> bool" where
  "illegal c = (c \<in> set ILLEGAL_CHARS)"

text \<open>
  The regular expression carries the \<open>g\<close> flag and lives at module level, so it has one
  mutable field, \<open>lastIndex\<close>, shared by all calls. \<open>RegExp.prototype.test\<close> on a global
  regular expression searches from \<open>lastIndex\<close>; on a match at index \<open>i\<close> it answers true
  and leaves \<open>lastIndex = i + 1\<close> (the class matches one code unit), otherwise it answers
  false and resets \<open>lastIndex\<close> to 0.
\<close>

fun first_illegal :: "string \<Rightarrow> nat \<Rightarrow> nat option" where
  "first_illegal [] i = None"
| "first_illegal (c # cs) i = (if illegal c then Some i else first_illegal cs (Suc i))"

definition regex_test :: "string \<Rightarrow> nat \<Rightarrow> bool \<times> nat" where
  "regex_test name lastIndex =
     (if length name < lastIndex then (False, 0)
      else (case first_illegal (drop lastIndex name) lastIndex of
              None \<Rightarrow> (False, 0)
            | Some i \<Rightarrow> (True, Suc i)))"

text \<open>
  \<open>String.prototype.replace\<close> with a global regular expression starts from
  \<open>lastIndex = 0\<close>, replaces every match and leaves \<open>lastIndex = 0\<close>.
  \<open>replace_illegal\<close> is \<^verbatim>\<open>name.replace(ILLEGAL_CHARS_REGEX, "-")\<close>.
\<close>

definition replace_illegal :: "string \<Rightarrow> nat \<Rightarrow> string \<times> nat" where
  "replace_illegal name lastIndex = (map (\<lambda>c. if illegal c then CHR ''-'' else c) name, 0)"

text \<open>\<^verbatim>\<open>.replace(/-+/g, "-")\<close>: every maximal run of hyphens becomes one hyphen.\<close>

fun collapse_hyphens :: "string \<Rightarrow> string" where
  "collapse_hyphens (a # b # cs) =
     (if a = CHR ''-'' \<and> b = CHR ''-'' then collapse_hyphens (b # cs)
      else a # collapse_hyphens (b # cs))"
| "collapse_hyphens cs = cs"

text \<open>
  \<^verbatim>\<open>
  const getMMKVPath = (name: string): string => {
      if (ILLEGAL_CHARS_REGEX.test(name)) {
          name = name.replace(ILLEGAL_CHARS_REGEX, "-").replace(/-+/g, "-");
      }
      return `vd_mmkv/${name}`;
  };
  \<close>
  The second component of the argument and of the result is the \<open>lastIndex\<close> of
  \<open>ILLEGAL_CHARS_REGEX\<close> before and after the call.
\<close>

definition getMMKVPath :: "string \<Rightarrow> nat \<Rightarrow> string \<times> nat" where
  "getMMKVPath name lastIndex =
     (case regex_test name lastIndex of
        (True, li) \<Rightarrow>
          (case replace_illegal name li of
             (replaced, li') \<Rightarrow> (''vd_mmkv/'' @ collapse_hyphens replaced, li'))
      | (False, li) \<Rightarrow> (''vd_mmkv/'' @ name, li))"

text \<open>Two neighbouring hyphens somewhere in a string.\<close>

fun double_hyphen :: "string \<Rightarrow> bool" where
  "double_hyphen (a # b # cs) = ((a = CHR ''-'' \<and> b = CHR ''-'') \<or> double_hyphen (b # cs))"
| "double_hyphen cs = False"


section \<open>Values, objects and the change emitter\<close>

text \<open>
  A path is the sequence of property keys from the proxy root. The traps declare their
  key as \<^verbatim>\<open>prop: string\<close>; for a string key the test against the emitter symbol
  (line 117) is false, so the model starts at line 119.
\<close>

type_synonym path = "string list"

text \<open>
  A reference is the identity of an object. An ordinary object is a heap address. A
  \<^verbatim>\<open>Proxy\<close> is immutable: its identity, its target and the path its handler closes
  over are fixed by \<^verbatim>\<open>new Proxy\<close>, so a proxy reference carries all three.
  A function is known by its name; the traps treat a function as they treat a number or
  a string, a value they pass on. Numbers are kept as integers.
\<close>

datatype ref = Obj nat | Prx nat ref path

datatype val = Undefined | Null | Bool bool | Num int | Str string | Fun string | Ref ref

datatype error = TypeError | SyntaxError | IOError | RangeError

fun typeof :: "val \<Rightarrow> string" where
  "typeof Undefined = ''undefined''"
| "typeof Null = ''object''"
| "typeof (Bool b) = ''boolean''"
| "typeof (Num n) = ''number''"
| "typeof (Str x) = ''string''"
| "typeof (Fun f) = ''function''"
| "typeof (Ref r) = ''object''"

datatype event_kind = GET | SET | DEL

datatype event = Event (ev_kind: event_kind) (ev_parent: val) (ev_path: path) (ev_value: val)

text \<open>
  The listeners this file registers: the persistence handler of \<open>createStorage\<close>,
  \<^verbatim>\<open>() => backend.set(proxy)\<close>, which closes over the root proxy.
\<close>

datatype listener = Persist ref

text \<open>
  The state of one proxy session. The ordinary objects: their own data properties by
  address (\<open>heap\<close>), the own properties that cannot be deleted (\<open>fixed\<close>), which
  addresses are arrays (\<open>arrays\<close>), the prototype of each object (\<open>prototype\<close>, null
  or a reference), and the objects that hold the accessor \<open>__proto__\<close>
  (\<open>proto_accessor\<close>: \<open>Object.prototype\<close>, until the accessor is deleted).
  \<open>string_number\<close> is the language's conversion of a string to a number, where the
  number is an integer (\<open>None\<close> for every other string). Then the closure variables of
  \<open>createProxy\<close> (\<open>parentTarget\<close>, \<open>childrens\<close>, \<open>proxiedChildrenSet\<close>), the allocation
  counter, the emitter's listeners, and two logs: the events emitted and the arguments of
  the backend's \<open>set\<close> calls.
\<close>

record session =
  heap :: "nat \<Rightarrow> string \<Rightarrow> val option"
  fixed :: "(nat \<times> string) set"
  arrays :: "nat set"
  prototype :: "nat \<Rightarrow> val"
  proto_accessor :: "nat set"
  string_number :: "string \<Rightarrow> int option"
  childrens :: "ref \<Rightarrow> ref option"
  proxiedChildrenSet :: "ref set"
  fresh :: nat
  parentTarget :: val
  listeners :: "event_kind \<Rightarrow> listener list"
  emitted :: "event list"
  backend_sets :: "val list"

text \<open>
  Modelled from the spec: the \<open>Emitter\<close> class (\<^verbatim>\<open>./Emitter\<close>), which is imported by
  storage.ts and is not among the sources. The spec: \<^emph>\<open>Contract: on(eventKind, listener),
  off(eventKind, listener), emit(eventKind, payload). Multiple listeners per event kind are
  supported, invoked synchronously in registration order when emit is called.\<close>
\<close>

definition emitter_on :: "event_kind \<Rightarrow> listener \<Rightarrow> session \<Rightarrow> session" where
  "emitter_on k l s = s\<lparr>listeners := (listeners s)(k := listeners s k @ [l])\<rparr>"

fun run_listener :: "listener \<Rightarrow> session \<Rightarrow> session" where
  "run_listener (Persist proxy) s = s\<lparr>backend_sets := backend_sets s @ [Ref proxy]\<rparr>"

definition emit :: "event \<Rightarrow> session \<Rightarrow> session" where
  "emit e s = fold run_listener (listeners s (ev_kind e)) (s\<lparr>emitted := emitted s @ [e]\<rparr>)"

text \<open>
  \<open>WeakMap\<close> and \<open>WeakSet\<close> are keyed by object identity; \<open>has\<close> and \<open>get\<close> answer
  false and undefined for a key that is not an object (so for \<open>null\<close>).
\<close>

fun weakmap_has :: "(ref \<Rightarrow> ref option) \<Rightarrow> val \<Rightarrow> bool" where
  "weakmap_has m (Ref r) = (m r \<noteq> None)"
| "weakmap_has m v = False"

fun weakmap_get :: "(ref \<Rightarrow> ref option) \<Rightarrow> val \<Rightarrow> val" where
  "weakmap_get m (Ref r) = (case m r of None \<Rightarrow> Undefined | Some p \<Rightarrow> Ref p)"
| "weakmap_get m v = Undefined"

fun weakset_has :: "ref set \<Rightarrow> val \<Rightarrow> bool" where
  "weakset_has S (Ref r) = (r \<in> S)"
| "weakset_has S v = False"

section \<open>Property access on ordinary objects and arrays\<close>

text \<open>
  The language's own semantics of \<^verbatim>\<open>target[prop]\<close>, \<^verbatim>\<open>target[prop] = value\<close> and
  \<^verbatim>\<open>delete target[prop]\<close> on the targets a session has: objects and arrays as
  \<open>JSON.parse\<close> and object literals make them.

  A property is looked up on the object and then along its prototype chain. The chain of
  a document's object has at most three members (an array, \<open>Array.prototype\<close>,
  \<open>Object.prototype\<close>), and so many the lookup visits; it does not go through a
  prototype that is a proxy or a function, which only an assignment to \<open>__proto__\<close>
  installs.
\<close>

definition prototype_chain :: "session \<Rightarrow> nat \<Rightarrow> nat list" where
  "prototype_chain s a =
     a # (case prototype s a of
            Ref (Obj b) \<Rightarrow> b # (case prototype s b of Ref (Obj c) \<Rightarrow> [c] | _ \<Rightarrow> [])
          | _ \<Rightarrow> [])"

datatype found = Data val | Accessor | Missing

fun find_property :: "session \<Rightarrow> nat list \<Rightarrow> string \<Rightarrow> found" where
  "find_property s [] k = Missing"
| "find_property s (h # hs) k =
     (case heap s h k of
        Some v \<Rightarrow> Data v
      | None \<Rightarrow> if k = ''__proto__'' \<and> h \<in> proto_accessor s then Accessor
                else find_property s hs k)"

text \<open>
  What the object at \<open>a\<close> answers for a key: its own or an inherited data property; for
  \<open>__proto__\<close>, where the accessor is reached, the prototype of \<open>a\<close>; undefined
  otherwise.
\<close>

definition answer :: "session \<Rightarrow> nat \<Rightarrow> string \<Rightarrow> val" where
  "answer s a k =
     (case find_property s (prototype_chain s a) k of
        Data v \<Rightarrow> v
      | Accessor \<Rightarrow> prototype s a
      | Missing \<Rightarrow> Undefined)"

text \<open>
  An array index is the canonical decimal text of a number below \<open>2^32 - 1\<close>; the
  length of an array is its own property \<open>length\<close>.
\<close>

definition digit_value :: "char \<Rightarrow> nat option" where
  "digit_value c = map_of (zip ''0123456789'' [0, 1, 2, 3, 4, 5, 6, 7, 8, 9]) c"

fun decimal :: "string \<Rightarrow> nat \<Rightarrow> nat option" where
  "decimal [] n = Some n"
| "decimal (c # cs) n =
     (case digit_value c of None \<Rightarrow> None | Some d \<Rightarrow> decimal cs (10 * n + d))"

definition array_index :: "string \<Rightarrow> nat option" where
  "array_index k =
     (if k = [] \<or> (hd k = CHR ''0'' \<and> k \<noteq> ''0'') then None
      else case decimal k 0 of
             None \<Rightarrow> None
           | Some n \<Rightarrow> if n < 4294967295 then Some n else None)"

definition array_length :: "session \<Rightarrow> nat \<Rightarrow> nat" where
  "array_length s a = (case heap s a ''length'' of Some (Num n) \<Rightarrow> nat n | _ \<Rightarrow> 0)"

definition plain_store :: "nat \<Rightarrow> string \<Rightarrow> val \<Rightarrow> session \<Rightarrow> session" where
  "plain_store a k v s = s\<lparr>heap := (heap s)(a := (heap s a)(k \<mapsto> v))\<rparr>"

definition set_length :: "nat \<Rightarrow> (string \<Rightarrow> val option) \<Rightarrow> string \<Rightarrow> val option" where
  "set_length n props =
     (\<lambda>k. if k = ''length'' then Some (Num (int n))
          else case array_index k of
                 Some i \<Rightarrow> if n \<le> i then None else props k
               | None \<Rightarrow> props k)"

section \<open>The deep reactive proxy: \<open>createProxy\<close> (storage.ts, lines 107-185)\<close>

text \<open>
  \<^verbatim>\<open>new Proxy(target, handler)\<close> inside the inner \<open>createProxy(target, path)\<close>: a
  fresh identity over an object; a \<open>TypeError\<close> for a target that is not an object.
\<close>

fun new_proxy :: "val \<Rightarrow> path \<Rightarrow> session \<Rightarrow> (error + ref) \<times> session" where
  "new_proxy (Ref r) p s = (Inr (Prx (fresh s) r p), s\<lparr>fresh := Suc (fresh s)\<rparr>)"
| "new_proxy v p s = (Inl TypeError, s)"

text \<open>
  \<open>js_get r prop\<close> is the expression \<^verbatim>\<open>r[prop]\<close>. An ordinary object answers as
  \<open>answer\<close> says (parsed JSON has no getter of its own).
  On a proxy it runs the \<open>get\<close> trap (lines 116-142); where the trap calls
  \<open>createProxy(value, newPath)\<close> the value is an object, so \<open>new Proxy\<close> does not throw:
  \<^verbatim>\<open>
  const newPath = [...path, prop];
  const value: any = target[prop];
  if (value !== undefined && value !== null) {
      emitter.emit("GET", { parent: parentTarget, path: newPath, value });
      if (typeof value === "object") {
          if (proxiedChildrenSet.has(value)) return value;
          if (childrens.has(value)) return childrens.get(value);
          const childrenProxy = createProxy(value, newPath);
          childrens.set(value, childrenProxy);
          return childrenProxy;
      }
      return value;
  }
  return value;
  \<close>
\<close>

fun js_get :: "ref \<Rightarrow> string \<Rightarrow> session \<Rightarrow> val \<times> session" where
  "js_get (Obj a) prop s = (answer s a prop, s)"
| "js_get (Prx i target path) prop s =
     (let newPath = path @ [prop] in
      case js_get target prop s of (v, s1) \<Rightarrow>
        if v \<noteq> Undefined \<and> v \<noteq> Null then
          (let s2 = emit (Event GET (parentTarget s1) newPath v) s1 in
           if typeof v = ''object'' then
             (if weakset_has (proxiedChildrenSet s2) v then (v, s2)
              else if weakmap_has (childrens s2) v then (weakmap_get (childrens s2) v, s2)
              else (case v of
                      Ref r \<Rightarrow>
                        (Ref (Prx (fresh s2) r newPath),
                         s2\<lparr>fresh := Suc (fresh s2),
                            childrens := (childrens s2)(r \<mapsto> Prx (fresh s2) r newPath)\<rparr>)
                    | _ \<Rightarrow> (v, s2)))
           else (v, s2))
        else (v, s1))"

text \<open>
  Assigning to the \<open>length\<close> of an array converts the value to a number, twice
  (\<open>ToUint32\<close>, then \<open>ToNumber\<close>), and throws a \<open>RangeError\<close> unless the number is an
  integer from 0 to \<open>2^32 - 1\<close>. Converting an object reads its \<open>valueOf\<close> and then
  its \<open>toString\<close>, through the traps when the object is a proxy. The built-in
  \<open>valueOf\<close> answers the object itself and the built-in \<open>toString\<close> of an object or a
  function a text that is no number; without a callable \<open>toString\<close> the conversion
  throws a \<open>TypeError\<close>. A function of the model is taken to answer as the built-in
  ones do; so is the \<open>toString\<close> of an array, which in truth joins the elements.
\<close>

fun callable :: "val \<Rightarrow> bool" where
  "callable (Fun f) = True"
| "callable v = False"

definition object_to_number :: "ref \<Rightarrow> session \<Rightarrow> (error + unit) \<times> session" where
  "object_to_number r s =
     (case js_get r ''valueOf'' s of (valueOf, s1) \<Rightarrow>
      case js_get r ''toString'' s1 of (toString, s2) \<Rightarrow>
        if callable toString then (Inr (), s2) else (Inl TypeError, s2))"

fun to_length :: "val \<Rightarrow> session \<Rightarrow> (error + nat) \<times> session" where
  "to_length Undefined s = (Inl RangeError, s)"
| "to_length Null s = (Inr 0, s)"
| "to_length (Bool b) s = (Inr (if b then 1 else 0), s)"
| "to_length (Num n) s =
     (if 0 \<le> n \<and> n < 4294967296 then Inr (nat n) else Inl RangeError, s)"
| "to_length (Str x) s =
     (case string_number s x of
        None \<Rightarrow> Inl RangeError
      | Some n \<Rightarrow> if 0 \<le> n \<and> n < 4294967296 then Inr (nat n) else Inl RangeError, s)"
| "to_length (Fun f) s = (Inl RangeError, s)"
| "to_length (Ref r) s =
     (case object_to_number r s of
        (Inl e, s1) \<Rightarrow> (Inl e, s1)
      | (Inr u, s1) \<Rightarrow>
          (case object_to_number r s1 of
             (Inl e, s2) \<Rightarrow> (Inl e, s2)
           | (Inr u', s2) \<Rightarrow> (Inl RangeError, s2)))"

text \<open>
  Giving the object at \<open>a\<close> the own data property \<open>k\<close>. An array is exotic: its
  \<open>length\<close> takes a converted value and drops the indices at or beyond it (an array has
  none beyond its length, so a growing length drops nothing), and an index at or beyond
  the length makes the length the index plus one.
\<close>

definition put_own :: "nat \<Rightarrow> string \<Rightarrow> val \<Rightarrow> session \<Rightarrow> (error + unit) \<times> session" where
  "put_own a k v s =
     (if a \<in> arrays s then
        (if k = ''length'' then
           (case to_length v s of
              (Inl e, s1) \<Rightarrow> (Inl e, s1)
            | (Inr n, s1) \<Rightarrow>
                (Inr (), s1\<lparr>heap := (heap s1)(a := set_length n (heap s1 a))\<rparr>))
         else
           (case array_index k of
              None \<Rightarrow> (Inr (), plain_store a k v s)
            | Some i \<Rightarrow>
                if array_length s a \<le> i
                then (Inr (), plain_store a ''length'' (Num (int i + 1)) (plain_store a k v s))
                else (Inr (), plain_store a k v s)))
      else (Inr (), plain_store a k v s))"

text \<open>
  The setter of the accessor \<open>__proto__\<close>: a value that is neither an object nor null
  is ignored; the prototype it has already is accepted; \<open>Object.prototype\<close>, the holder
  of the accessor, takes no other prototype, and no object takes one whose chain of
  ordinary objects leads back to it (a \<open>TypeError\<close> in both cases); otherwise the
  value becomes the prototype.
\<close>

definition proto_setter :: "nat \<Rightarrow> val \<Rightarrow> session \<Rightarrow> (error + unit) \<times> session" where
  "proto_setter a v s =
     (if typeof v = ''object'' \<or> typeof v = ''function'' then
        (if v = prototype s a then (Inr (), s)
         else if a \<in> proto_accessor s then (Inl TypeError, s)
         else if (case v of Ref (Obj b) \<Rightarrow> a \<in> set (prototype_chain s b) | _ \<Rightarrow> False)
              then (Inl TypeError, s)
         else (Inr (), s\<lparr>prototype := (prototype s)(a := v)\<rparr>))
      else (Inr (), s))"

text \<open>
  Lines 145-156 of the \<open>set\<close> trap, up to the assignment: the value that will be stored,
  with the caches updated. \<open>typeof null\<close> is \<open>"object"\<close> and no weak map has \<open>null\<close>,
  so \<open>null\<close> reaches \<open>createProxy(null, ...)\<close>, whose \<open>new Proxy\<close> throws.
\<close>

definition resolve_stored :: "val \<Rightarrow> path \<Rightarrow> session \<Rightarrow> (error + val) \<times> session" where
  "resolve_stored v newPath s =
     (if typeof v = ''object'' then
        (if weakmap_has (childrens s) v then (Inr (weakmap_get (childrens s) v), s)
         else (case new_proxy v newPath s of
                 (Inl e, s1) \<Rightarrow> (Inl e, s1)
               | (Inr childrenProxy, s1) \<Rightarrow>
                   (case v of
                      Ref r \<Rightarrow>
                        (Inr (Ref childrenProxy),
                         s1\<lparr>childrens := (childrens s1)(r \<mapsto> childrenProxy),
                            proxiedChildrenSet := insert r (proxiedChildrenSet s1)\<rparr>)
                    | _ \<Rightarrow> (Inl TypeError, s1))))
      else (Inr v, s))"

text \<open>
  \<open>js_set r prop v\<close> is the statement \<^verbatim>\<open>r[prop] = v\<close>. On an ordinary object the
  property is searched as for a read: where the accessor \<open>__proto__\<close> is found its setter
  runs, otherwise the object gets the own data property (the data properties of parsed
  JSON and of the built-in prototypes are writable). A proxy runs the \<open>set\<close> trap
  (lines 144-165): each of its three branches assigns the resolved value to
  \<^verbatim>\<open>target[prop]\<close>; then
  \<^verbatim>\<open>
  emitter.emit("SET", { parent: parentTarget, path: [...path, prop], value: target[prop] });
  return true;
  \<close>
  The trap answers true whenever it returns, so the assignment never throws for a refused
  write; it throws only what the trap throws.
\<close>

fun js_set :: "ref \<Rightarrow> string \<Rightarrow> val \<Rightarrow> session \<Rightarrow> (error + unit) \<times> session" where
  "js_set (Obj a) prop v s =
     (case find_property s (prototype_chain s a) prop of
        Accessor \<Rightarrow> proto_setter a v s
      | _ \<Rightarrow> put_own a prop v s)"
| "js_set (Prx i target path) prop v s =
     (case resolve_stored v (path @ [prop]) s of
        (Inl e, s1) \<Rightarrow> (Inl e, s1)
      | (Inr x, s1) \<Rightarrow>
          (case js_set target prop x s1 of
             (Inl e, s2) \<Rightarrow> (Inl e, s2)
           | (Inr u, s2) \<Rightarrow>
               (case js_get target prop s2 of
                  (stored, s3) \<Rightarrow>
                    (Inr (), emit (Event SET (parentTarget s3) (path @ [prop]) stored) s3))))"

text \<open>
  \<open>js_delete r prop\<close> is the internal method behind \<^verbatim>\<open>delete r[prop]\<close>; it answers
  whether the property is gone. An ordinary object has nothing to remove where it has no
  own property, gives up the accessor \<open>__proto__\<close> if it holds it, and refuses an own
  property that is not configurable, as the \<open>length\<close> of an array. A proxy runs the
  \<open>deleteProperty\<close> trap (lines 167-177):
  \<^verbatim>\<open>
  const value = typeof target[prop] === "object" ? childrens.get(target[prop])! : target[prop];
  const success = delete target[prop];
  if (success) emitter.emit("DEL", { value, parent: parentTarget, path: [...path, prop] });
  return success;
  \<close>
  The file is an ES module, so its code is strict: \<open>delete\<close> throws a \<open>TypeError\<close>
  where the internal method answers false (\<open>strict_delete\<close>).
\<close>

definition strict_delete :: "(error + bool) \<times> session \<Rightarrow> (error + bool) \<times> session" where
  "strict_delete r = (case r of (Inr False, s) \<Rightarrow> (Inl TypeError, s) | _ \<Rightarrow> r)"

fun js_delete :: "ref \<Rightarrow> string \<Rightarrow> session \<Rightarrow> (error + bool) \<times> session" where
  "js_delete (Obj a) prop s =
     (case heap s a prop of
        None \<Rightarrow>
          if prop = ''__proto__'' \<and> a \<in> proto_accessor s
          then (Inr True, s\<lparr>proto_accessor := proto_accessor s - {a}\<rparr>)
          else (Inr True, s)
      | Some v \<Rightarrow>
          if (a, prop) \<in> fixed s \<or> (a \<in> arrays s \<and> prop = ''length'') then (Inr False, s)
          else (Inr True, s\<lparr>heap := (heap s)(a := (heap s a)(prop := None))\<rparr>))"
| "js_delete (Prx i target path) prop s =
     (case js_get target prop s of (t1, s1) \<Rightarrow>
      case js_get target prop s1 of (t2, s2) \<Rightarrow>
        (let v = (if typeof t1 = ''object'' then weakmap_get (childrens s2) t2 else t2) in
         case strict_delete (js_delete target prop s2) of
           (Inl e, s3) \<Rightarrow> (Inl e, s3)
         | (Inr success, s3) \<Rightarrow>
             if success
             then (Inr True, emit (Event DEL (parentTarget s3) (path @ [prop]) v) s3)
             else (Inr False, s3)))"

text \<open>
  The outer \<open>createProxy(target = {})\<close> (lines 107-113, 181-184) over the objects that exist
  when it is called: a new emitter with no listener, empty caches, and the root proxy at
  the empty path. An absent argument is a new empty object, whose prototype is
  \<open>Object.prototype\<close>. A target that is not an object makes \<^verbatim>\<open>new Proxy\<close> throw; the
  model has no proxy over a function, which is no document, and refuses it as well.
\<close>

record memory =
  objects :: "nat \<Rightarrow> string \<Rightarrow> val option"
  unconfigurable :: "(nat \<times> string) set"
  array_objects :: "nat set"
  prototypes :: "nat \<Rightarrow> val"
  accessor_holders :: "nat set"
  string_numbers :: "string \<Rightarrow> int option"
  object_prototype :: nat
  next_id :: nat

definition createProxy :: "val \<Rightarrow> memory \<Rightarrow> error + (ref \<times> session)" where
  "createProxy target m =
     (let (tgt, n) = (if target = Undefined then (Ref (Obj (next_id m)), Suc (next_id m))
                      else (target, next_id m)) in
      case tgt of
        Ref r \<Rightarrow>
          Inr (Prx n r [],
               \<lparr>heap = objects m, fixed = unconfigurable m, arrays = array_objects m,
                prototype = (if target = Undefined
                             then (prototypes m)(next_id m := Ref (Obj (object_prototype m)))
                             else prototypes m),
                proto_accessor = accessor_holders m, string_number = string_numbers m,
                childrens = Map.empty, proxiedChildrenSet = {}, fresh = Suc n,
                parentTarget = tgt, listeners = (\<lambda>k. []), emitted = [],
                backend_sets = []\<rparr>)
      | _ \<Rightarrow> Inl TypeError)"

section \<open>The storage session: \<open>createStorage\<close> (storage.ts, lines 211-220)\<close>

text \<open>
  \<^verbatim>\<open>
  const data = await backend.get();
  const { proxy, emitter } = createProxy(data);
  const handler = () => backend.set(proxy);
  emitter.on("SET", handler);
  emitter.on("DEL", handler);
  return proxy;
  \<close>
  \<open>data\<close> is what the backend's \<open>get\<close> resolved to, in the memory it was parsed into.
\<close>

definition createStorage :: "val \<Rightarrow> memory \<Rightarrow> error + (ref \<times> session)" where
  "createStorage data m =
     (case createProxy data m of
        Inl e \<Rightarrow> Inl e
      | Inr (proxy, s) \<Rightarrow>
          Inr (proxy, emitter_on DEL (Persist proxy) (emitter_on SET (Persist proxy) s)))"

text \<open>What a client does to a session: one step is one property operation on a reference.\<close>

datatype operation = Read ref string | Write ref string val | Delete ref string

fun step :: "operation \<Rightarrow> session \<Rightarrow> session" where
  "step (Read r prop) s = snd (js_get r prop s)"
| "step (Write r prop v) s = snd (js_set r prop v s)"
| "step (Delete r prop) s = snd (strict_delete (js_delete r prop s))"

definition mutating :: "event \<Rightarrow> bool" where
  "mutating e = (ev_kind e = SET \<or> ev_kind e = DEL)"

text \<open>
  The underlying ordinary object of a reference, below every proxy layer, and what that
  object answers for a key.
\<close>

fun base :: "ref \<Rightarrow> nat" where
  "base (Obj a) = a"
| "base (Prx i t p) = base t"

definition raw :: "session \<Rightarrow> ref \<Rightarrow> string \<Rightarrow> val" where
  "raw s r k = answer s (base r) k"

text \<open>
  The prototype chain of the object at \<open>a\<close> is followed to its end by the lookup: it
  consists of ordinary objects and ends, with null, within the three members visited.
  So it is for every object of a document, until an object is assigned to its
  \<open>__proto__\<close>.
\<close>

definition chain_complete :: "session \<Rightarrow> nat \<Rightarrow> bool" where
  "chain_complete s a \<longleftrightarrow>
     (case prototype s a of
        Null \<Rightarrow> True
      | Ref (Obj b) \<Rightarrow>
          (case prototype s b of
             Null \<Rightarrow> True
           | Ref (Obj c) \<Rightarrow> prototype s c = Null
           | _ \<Rightarrow> False)
      | _ \<Rightarrow> False)"

text \<open>
  A value with its proxy layers taken off: two references are the same underlying object
  when they agree after \<open>unwrap\<close>; other values are themselves.
\<close>

fun unwrap :: "val \<Rightarrow> val" where
  "unwrap (Ref r) = Ref (Obj (base r))"
| "unwrap v = v"

text \<open>A value that is a proxy.\<close>

fun is_proxy :: "val \<Rightarrow> bool" where
  "is_proxy (Ref (Prx i t p)) = True"
| "is_proxy v = False"

text \<open>
  The table \<open>childrens\<close> is sound when it maps an object only to a proxy over that
  object. \<open>createProxy\<close> starts with an empty table and the traps only add such
  entries, so every session state is sound (\<open>cache_ok_run\<close> below).
\<close>

definition cache_ok :: "session \<Rightarrow> bool" where
  "cache_ok s \<longleftrightarrow>
     (\<forall>r q. childrens s r = Some q \<longrightarrow> base q = base r \<and> is_proxy (Ref q))"

text \<open>
  \<open>cache_le s s'\<close>: from \<open>s\<close> to \<open>s'\<close> the objects and \<open>proxiedChildrenSet\<close> are
  unchanged and \<open>childrens\<close> has only gained entries. Reads take a session to such a
  state.
\<close>

definition cache_le :: "session \<Rightarrow> session \<Rightarrow> bool" where
  "cache_le s s' \<longleftrightarrow>
     heap s' = heap s \<and> prototype s' = prototype s \<and> proto_accessor s' = proto_accessor s \<and>
     proxiedChildrenSet s' = proxiedChildrenSet s \<and> childrens s \<subseteq>\<^sub>m childrens s'"

text \<open>
  \<open>same_objects s s'\<close>: the two states have the same objects (properties, arrays,
  prototypes, accessor) and the same conversion of strings. Reads leave the objects as
  they are.
\<close>

definition same_objects :: "session \<Rightarrow> session \<Rightarrow> bool" where
  "same_objects s s' \<longleftrightarrow>
     heap s' = heap s \<and> fixed s' = fixed s \<and> arrays s' = arrays s \<and>
     prototype s' = prototype s \<and> proto_accessor s' = proto_accessor s \<and>
     string_number s' = string_number s"

text \<open>
  A session as \<open>createStorage\<close> leaves it and as it stays: the persistence handler is the
  one listener of \<open>SET\<close> and of \<open>DEL\<close>, \<open>GET\<close> has none, and the backend's \<open>set\<close> has been
  called once per mutating event so far.
\<close>

definition in_session :: "ref \<Rightarrow> session \<Rightarrow> bool" where
  "in_session root s \<longleftrightarrow>
     listeners s GET = [] \<and> listeners s SET = [Persist root] \<and>
     listeners s DEL = [Persist root] \<and>
     length (backend_sets s) = length (filter mutating (emitted s))"

text \<open>
  An example. \<open>Object.prototype\<close> with its members is at address 0 and holds the
  accessor \<open>__proto__\<close>. The parsed document \<^verbatim>\<open>{"a": {"b": 1}, "n": null}\<close> is at
  address 1 (its child at address 2), an empty object literal at address 3. The example
  platform converts the unsigned decimal texts to numbers. Then the proxy session and
  the storage session over the document.
\<close>

definition ObjectPrototype_members :: "string \<Rightarrow> val option" where
  "ObjectPrototype_members =
     [''constructor'' \<mapsto> Fun ''Object'', ''toString'' \<mapsto> Fun ''toString'',
      ''toLocaleString'' \<mapsto> Fun ''toLocaleString'', ''valueOf'' \<mapsto> Fun ''valueOf'',
      ''hasOwnProperty'' \<mapsto> Fun ''hasOwnProperty'',
      ''isPrototypeOf'' \<mapsto> Fun ''isPrototypeOf'',
      ''propertyIsEnumerable'' \<mapsto> Fun ''propertyIsEnumerable'',
      ''__defineGetter__'' \<mapsto> Fun ''__defineGetter__'',
      ''__defineSetter__'' \<mapsto> Fun ''__defineSetter__'',
      ''__lookupGetter__'' \<mapsto> Fun ''__lookupGetter__'',
      ''__lookupSetter__'' \<mapsto> Fun ''__lookupSetter__'']"

definition demo_memory :: memory where
  "demo_memory =
     \<lparr>objects = (\<lambda>a. Map.empty)
        (0 := ObjectPrototype_members,
         1 := [''a'' \<mapsto> Ref (Obj 2), ''n'' \<mapsto> Null], 2 := [''b'' \<mapsto> Num 1]),
      unconfigurable = {}, array_objects = {},
      prototypes = (\<lambda>a. Ref (Obj 0))(0 := Null), accessor_holders = {0},
      string_numbers = (\<lambda>x. map_option int (decimal x 0)),
      object_prototype = 0, next_id = 4\<rparr>"

definition demo_root :: ref where
  "demo_root = Prx 4 (Obj 1) []"

definition demo_proxy_session :: session where
  "demo_proxy_session =
     \<lparr>heap = objects demo_memory, fixed = {}, arrays = {},
      prototype = prototypes demo_memory, proto_accessor = {0},
      string_number = string_numbers demo_memory,
      childrens = Map.empty, proxiedChildrenSet = {},
      fresh = 5, parentTarget = Ref (Obj 1), listeners = (\<lambda>k. []), emitted = [],
      backend_sets = []\<rparr>"

definition demo_storage_session :: session where
  "demo_storage_session =
     demo_proxy_session
       \<lparr>listeners := (\<lambda>k. [])(SET := [Persist demo_root], DEL := [Persist demo_root])\<rparr>"

text \<open>
  A second example: the array \<^verbatim>\<open>[10, 20]\<close> at address 7, with \<open>Array.prototype\<close>
  at address 8, and a proxy over the array at the path \<open>list\<close>.
\<close>

definition demo_array_session :: session where
  "demo_array_session =
     demo_proxy_session
       \<lparr>heap := (heap demo_proxy_session)
          (7 := [''0'' \<mapsto> Num 10, ''1'' \<mapsto> Num 20, ''length'' \<mapsto> Num 2],
           8 := [''length'' \<mapsto> Num 0, ''push'' \<mapsto> Fun ''push'', ''join'' \<mapsto> Fun ''join'']),
        arrays := {7, 8},
        prototype := (prototype demo_proxy_session)(7 := Ref (Obj 8))\<rparr>"

definition demo_list :: ref where
  "demo_list = Prx 9 (Obj 7) [''list'']"

section \<open>Backend adapters: \<open>createFileBackend\<close> and \<open>createMMKVBackend\<close> (lines 16-20, 42-105)\<close>

text \<open>
  A document is a JSON tree. \<open>JSON.parse\<close>, \<open>JSON.stringify\<close>, \<open>Platform\<close> and the two
  native modules are not code of this repository: they are the parameters \<open>native\<close> of
  the adapters. \<open>parse\<close> answers \<open>None\<close> where \<open>JSON.parse\<close> throws;
  \<open>documents_path\<close> is where the file manager's \<^verbatim>\<open>writeFile("documents", rel, ...)\<close>
  puts \<open>rel\<close>.
\<close>

datatype json =
  JNull | JBool bool | JNum int | JStr string | JArr "json list" | JObj "(string \<times> json) list"

record native =
  parse :: "string \<Rightarrow> json option"
  stringify :: "json \<Rightarrow> string"
  ios :: bool
  saveFileToGallery :: bool
  DocumentsDirPath :: string
  CacheDirPath :: string
  documents_path :: "string \<Rightarrow> string"

text \<open>
  What the native modules hold: the files by absolute path, the legacy key-value store,
  the paths whose write fails, and the log of the calls made to them.
\<close>

datatype io =
  FileExists string | ReadFile string | WriteFile string string | GetItem string | RemoveItem string

record world =
  files :: "string \<Rightarrow> string option"
  mmkv :: "string \<Rightarrow> string option"
  unwritable :: "string set"
  io_log :: "io list"

definition fileExists :: "string \<Rightarrow> world \<Rightarrow> bool \<times> world" where
  "fileExists p w = (files w p \<noteq> None, w\<lparr>io_log := io_log w @ [FileExists p]\<rparr>)"

definition readFile :: "string \<Rightarrow> world \<Rightarrow> (error + string) \<times> world" where
  "readFile p w =
     (case files w p of None \<Rightarrow> Inl IOError | Some c \<Rightarrow> Inr c,
      w\<lparr>io_log := io_log w @ [ReadFile p]\<rparr>)"

definition writeFile :: "native \<Rightarrow> string \<Rightarrow> string \<Rightarrow> world \<Rightarrow> (error + unit) \<times> world" where
  "writeFile N rel content w =
     (let p = documents_path N rel in
      if p \<in> unwritable w then (Inl IOError, w)
      else (Inr (), w\<lparr>files := (files w)(p \<mapsto> content),
                       io_log := io_log w @ [WriteFile p content]\<rparr>))"

definition getItem :: "string \<Rightarrow> world \<Rightarrow> string option \<times> world" where
  "getItem key w = (mmkv w key, w\<lparr>io_log := io_log w @ [GetItem key]\<rparr>)"

definition removeItem :: "string \<Rightarrow> world \<Rightarrow> world" where
  "removeItem key w = w\<lparr>mmkv := (mmkv w)(key := None), io_log := io_log w @ [RemoveItem key]\<rparr>"

text \<open>
  \<^verbatim>\<open>
  const filePathFixer = (file: string): string =>
      Platform.select({
          default: file,
          ios: RTNFileManager.saveFileToGallery ? file : `Documents/${file}`,
      });
  \<close>
\<close>

definition filePathFixer :: "native \<Rightarrow> string \<Rightarrow> string" where
  "filePathFixer N file =
     (if ios N then (if saveFileToGallery N then file else ''Documents/'' @ file) else file)"

text \<open>
  The \<open>get\<close> of \<open>createFileBackend(file, defaultData, migratePromise)\<close> (lines 84-99).
  \<open>migration\<close> is how \<^verbatim>\<open>await migratePromise\<close> ends: \<open>None\<close> when the promise is
  fulfilled or absent, the error when it is rejected. Only \<open>JSON.parse\<close> of the first
  read stands inside the \<open>try\<close>.
\<close>

definition fb_get :: "native \<Rightarrow> string \<Rightarrow> json \<Rightarrow> error option \<Rightarrow> world \<Rightarrow> (error + json) \<times> world" where
  "fb_get N file defaultData migration w =
     (case migration of
        Some e \<Rightarrow> (Inl e, w)
      | None \<Rightarrow>
          (let path = DocumentsDirPath N @ ''/'' @ file in
           case fileExists path w of (exists, w1) \<Rightarrow>
           case (if exists then
                   (case readFile path w1 of
                      (Inl e, w2) \<Rightarrow> (Some (Inl e), w2)
                    | (Inr content, w2) \<Rightarrow>
                        (case parse N content of
                           Some d \<Rightarrow> (Some (Inr d), w2)
                         | None \<Rightarrow> (None, w2)))
                 else (None, w1)) of
             (Some returned, w2) \<Rightarrow> (returned, w2)
           | (None, w2) \<Rightarrow>
               (case writeFile N (filePathFixer N file) (stringify N defaultData) w2 of
                  (Inl e, w3) \<Rightarrow> (Inl e, w3)
                | (Inr u, w3) \<Rightarrow>
                    (case readFile path w3 of
                       (Inl e, w4) \<Rightarrow> (Inl e, w4)
                     | (Inr content, w4) \<Rightarrow>
                         (case parse N content of
                            None \<Rightarrow> (Inl SyntaxError, w4)
                          | Some d \<Rightarrow> (Inr d, w4))))))"

text \<open>The \<open>set\<close> of the file backend (lines 100-103).\<close>

definition fb_set :: "native \<Rightarrow> string \<Rightarrow> error option \<Rightarrow> json \<Rightarrow> world \<Rightarrow> (error + unit) \<times> world" where
  "fb_set N file migration data w =
     (case migration of
        Some e \<Rightarrow> (Inl e, w)
      | None \<Rightarrow> writeFile N (filePathFixer N file) (stringify N data) w)"

text \<open>
  The migration that \<open>createMMKVBackend(store, defaultData)\<close> starts (lines 49-78), run to
  its end. The two \<open>console\<close> calls have no effect on the stores and are left out.
\<close>

definition LARGE_VALUE :: string where
  "LARGE_VALUE = ''!!LARGE_VALUE!!''"

definition migrate :: "native \<Rightarrow> string \<Rightarrow> json \<Rightarrow> world \<Rightarrow> (error + unit) \<times> world" where
  "migrate N store defaultData w =
     (let mmkvPath = fst (getMMKVPath store 0);
          defaultStr = stringify N defaultData;
          path = DocumentsDirPath N @ ''/'' @ mmkvPath in
      case fileExists path w of (exists, w1) \<Rightarrow>
      if exists then (Inr (), w1)
      else
        case getItem store w1 of (item, w2) \<Rightarrow>
        case (let oldData = (case item of None \<Rightarrow> defaultStr | Some x \<Rightarrow> x) in
              if oldData = LARGE_VALUE then
                (let cachePath = CacheDirPath N @ ''/mmkv/'' @ store in
                 case fileExists cachePath w2 of (cached, w3) \<Rightarrow>
                 if cached then readFile cachePath w3 else (Inr defaultStr, w3))
              else (Inr oldData, w2)) of
          (Inl e, w3) \<Rightarrow> (Inl e, w3)
        | (Inr oldData, w3) \<Rightarrow>
            (let checked = (case parse N oldData of None \<Rightarrow> defaultStr | Some d \<Rightarrow> oldData) in
             case writeFile N (filePathFixer N mmkvPath) checked w3 of
               (Inl e, w4) \<Rightarrow> (Inl e, w4)
             | (Inr u, w4) \<Rightarrow>
                 (case getItem store w4 of (item', w5) \<Rightarrow>
                  if item' \<noteq> None then (Inr (), removeItem store w5) else (Inr (), w5))))"

text \<open>
  Opening a store through the legacy adapter: \<open>createMMKVBackend\<close> starts the migration,
  and the backend's \<open>get\<close> waits for it. The calls are run in that order, with no other
  task of the process in between.
\<close>

definition mmkv_open :: "native \<Rightarrow> string \<Rightarrow> json \<Rightarrow> world \<Rightarrow> (error + json) \<times> world" where
  "mmkv_open N store defaultData w =
     (case migrate N store defaultData w of
        (outcome, w1) \<Rightarrow>
          fb_get N (fst (getMMKVPath store 0)) defaultData
            (case outcome of Inl e \<Rightarrow> Some e | Inr u \<Rightarrow> None) w1)"

text \<open>
  An example platform: Android-like paths, and a codec that knows the three texts of
  the examples.
\<close>

definition demo_legacy :: string where
  \<open>demo_legacy = ''{"a":1}''\<close>

definition demo_native :: native where
  "demo_native =
     \<lparr>parse = (\<lambda>t. if t = demo_legacy then Some (JObj [(''a'', JNum 1)])
                   else if t = ''{}'' then Some (JObj []) else None),
      stringify = (\<lambda>d. if d = JObj [] then ''{}'' else demo_legacy),
      ios = False, saveFileToGallery = True,
      DocumentsDirPath = ''/data/files'', CacheDirPath = ''/data/cache'',
      documents_path = (\<lambda>rel. ''/data/files/'' @ rel)\<rparr>"

definition demo_world :: world where
  "demo_world =
     \<lparr>files = Map.empty, mmkv = [''plugins'' \<mapsto> demo_legacy], unwritable = {}, io_log = []\<rparr>"

definition corrupt_world :: world where
  "corrupt_world =
     \<lparr>files = [''/data/files/settings.json'' \<mapsto> ''{tru''], mmkv = Map.empty,
      unwritable = {}, io_log = []\<rparr>"

section \<open>The sync adapter: \<open>wrapSync\<close> (storage.ts, lines 222-244)\<close>

text \<open>
  \<^verbatim>\<open>
  let awaited: any = undefined;
  const awaitQueue: (() => void)[] = [];
  const awaitInit = (cb: () => void) => (awaited ? cb() : awaitQueue.push(cb));
  store.then((v) => {
      awaited = v;
      awaitQueue.forEach((cb) => cb());
  });
  \<close>
  A callback is known by a number and calling it is recorded in \<open>called\<close>; the callbacks
  that \<open>awaitStorage\<close> registers are the resolvers of promises, which neither throw nor
  register. A promise settles once: \<open>settled\<close> tells that the \<open>then\<close> callback has run.
\<close>

record sync =
  awaited :: val
  awaitQueue :: "nat list"
  called :: "nat list"
  settled :: bool

fun truthy :: "val \<Rightarrow> bool" where
  "truthy Undefined = False"
| "truthy Null = False"
| "truthy (Bool b) = b"
| "truthy (Num n) = (n \<noteq> 0)"
| "truthy (Str x) = (x \<noteq> [])"
| "truthy (Fun f) = True"
| "truthy (Ref r) = True"

definition wrapSync :: sync where
  "wrapSync = \<lparr>awaited = Undefined, awaitQueue = [], called = [], settled = False\<rparr>"

definition awaitInit :: "nat \<Rightarrow> sync \<Rightarrow> sync" where
  "awaitInit cb s =
     (if truthy (awaited s) then s\<lparr>called := called s @ [cb]\<rparr>
      else s\<lparr>awaitQueue := awaitQueue s @ [cb]\<rparr>)"

definition fulfil :: "val \<Rightarrow> sync \<Rightarrow> sync" where
  "fulfil v s =
     (if settled s then s
      else s\<lparr>settled := True, awaited := v, called := called s @ awaitQueue s\<rparr>)"

section \<open>Properties of the storage keys\<close>

lemma first_illegal_None: "first_illegal cs i = None \<longleftrightarrow> (\<forall>c\<in>set cs. \<not> illegal c)"
  by (induction cs arbitrary: i) auto

lemma fst_regex_test_0: "fst (regex_test name 0) = (\<exists>c\<in>set name. illegal c)"
proof (cases "first_illegal name 0")
  case None
  then have "\<forall>c\<in>set name. \<not> illegal c"
    using first_illegal_None [of name 0] by simp
  with None show ?thesis by (simp add: regex_test_def)
next
  case (Some i)
  then have "\<not> (\<forall>c\<in>set name. \<not> illegal c)"
    using first_illegal_None [of name 0] by simp
  with Some show ?thesis by (simp add: regex_test_def)
qed

lemma collapse_head: "\<exists>ds. collapse_hyphens (a # cs) = a # ds"
  by (induction "a # cs" arbitrary: a cs rule: collapse_hyphens.induct) auto

lemma collapse_no_double: "\<not> double_hyphen (collapse_hyphens cs)"
proof (induction cs rule: collapse_hyphens.induct)
  case (1 a b cs)
  obtain ds where "collapse_hyphens (b # cs) = b # ds"
    using collapse_head by blast
  with 1 show ?case by auto
qed simp_all

lemma set_collapse: "set (collapse_hyphens cs) = set cs"
  by (induction cs rule: collapse_hyphens.induct) auto

lemma getMMKVPath_lastIndex: "snd (getMMKVPath name li) = 0"
  by (auto simp: getMMKVPath_def regex_test_def replace_illegal_def
      split: option.splits prod.splits bool.splits)

lemma not_illegal_hyphen: "\<not> illegal (CHR ''-'')"
  by (simp add: illegal_def ILLEGAL_CHARS_def)

text \<open>
  Claim C8. The sanitizer is a deterministic function of the name. A call that starts
  with the regular expression at rest (\<open>lastIndex = 0\<close>, its state when the module is
  loaded) leaves it at rest, so a call made after any other call computes what the first
  call would. The file path is \<open>vd_mmkv/\<close> followed by a segment with no illegal
  character. When the name has an illegal character, the segment is the name with each
  illegal character replaced by one hyphen and every run of hyphens collapsed to one,
  so it has no two neighbouring hyphens; a name with no illegal character is the segment.
\<close>

theorem getMMKVPath_sanitizes:
  "snd (getMMKVPath name 0) = 0 \<and>
   fst (getMMKVPath name (snd (getMMKVPath other 0))) = fst (getMMKVPath name 0) \<and>
   (\<exists>seg. fst (getMMKVPath name 0) = ''vd_mmkv/'' @ seg \<and>
      (\<forall>c\<in>set seg. \<not> illegal c) \<and>
      ((\<exists>c\<in>set name. illegal c) \<longrightarrow>
         seg = collapse_hyphens (map (\<lambda>c. if illegal c then CHR ''-'' else c) name) \<and>
         \<not> double_hyphen seg) \<and>
      ((\<forall>c\<in>set name. \<not> illegal c) \<longrightarrow> seg = name))"
proof -
  have li: "snd (getMMKVPath other 0) = 0" for other
    by (rule getMMKVPath_lastIndex)
  show ?thesis
  proof (cases "\<exists>c\<in>set name. illegal c")
    case True
    then have "fst (regex_test name 0) = True"
      by (simp add: fst_regex_test_0)
    then obtain l where "regex_test name 0 = (True, l)"
      by (cases "regex_test name 0") auto
    then have "fst (getMMKVPath name 0) =
        ''vd_mmkv/'' @ collapse_hyphens (map (\<lambda>c. if illegal c then CHR ''-'' else c) name)"
      by (simp add: getMMKVPath_def replace_illegal_def)
    with True li show ?thesis
      by (auto simp: set_collapse collapse_no_double not_illegal_hyphen)
  next
    case False
    then have "fst (regex_test name 0) = False"
      by (simp add: fst_regex_test_0)
    then obtain l where "regex_test name 0 = (False, l)"
      by (cases "regex_test name 0") auto
    then have "fst (getMMKVPath name 0) = ''vd_mmkv/'' @ name"
      by (simp add: getMMKVPath_def)
    with False li show ?thesis by auto
  qed
qed

theorem getMMKVPath_sanitizes_witness:
  "fst (getMMKVPath ''a:/b--c?'' 0) = ''vd_mmkv/a-b-c-'' \<and>
   fst (getMMKVPath ''a:/b--c?'' (snd (getMMKVPath ''x*y'' 0))) = ''vd_mmkv/a-b-c-'' \<and>
   fst (getMMKVPath ''a--b'' 0) = ''vd_mmkv/a--b''"
  using getMMKVPath_sanitizes [of "''a:/b--c?''" "''x*y''"] getMMKVPath_sanitizes [of "''a--b''" "''x*y''"]
  by (simp add: getMMKVPath_def regex_test_def replace_illegal_def illegal_def ILLEGAL_CHARS_def)

section \<open>Properties of the emitter and of the traps\<close>

lemma fold_run_listener:
  "heap (fold run_listener ls s) = heap s \<and>
   fixed (fold run_listener ls s) = fixed s \<and>
   arrays (fold run_listener ls s) = arrays s \<and>
   prototype (fold run_listener ls s) = prototype s \<and>
   proto_accessor (fold run_listener ls s) = proto_accessor s \<and>
   string_number (fold run_listener ls s) = string_number s \<and>
   childrens (fold run_listener ls s) = childrens s \<and>
   proxiedChildrenSet (fold run_listener ls s) = proxiedChildrenSet s \<and>
   fresh (fold run_listener ls s) = fresh s \<and>
   parentTarget (fold run_listener ls s) = parentTarget s \<and>
   listeners (fold run_listener ls s) = listeners s \<and>
   emitted (fold run_listener ls s) = emitted s \<and>
   length (backend_sets (fold run_listener ls s)) = length (backend_sets s) + length ls"
proof (induction ls arbitrary: s)
  case Nil
  then show ?case by simp
next
  case (Cons l ls)
  show ?case by (cases l) (simp add: Cons.IH)
qed

lemma emit_simps [simp]:
  "heap (emit e s) = heap s"
  "fixed (emit e s) = fixed s"
  "arrays (emit e s) = arrays s"
  "prototype (emit e s) = prototype s"
  "proto_accessor (emit e s) = proto_accessor s"
  "string_number (emit e s) = string_number s"
  "childrens (emit e s) = childrens s"
  "proxiedChildrenSet (emit e s) = proxiedChildrenSet s"
  "fresh (emit e s) = fresh s"
  "parentTarget (emit e s) = parentTarget s"
  "listeners (emit e s) = listeners s"
  "emitted (emit e s) = emitted s @ [e]"
  "length (backend_sets (emit e s)) = length (backend_sets s) + length (listeners s (ev_kind e))"
  by (simp_all add: emit_def fold_run_listener)


text \<open>What an object answers depends on the objects only.\<close>

lemma find_property_cong:
  "heap s' = heap s \<Longrightarrow> proto_accessor s' = proto_accessor s \<Longrightarrow>
   find_property s' hs k = find_property s hs k"
  by (induction hs) (auto split: option.splits)

lemma prototype_chain_cong:
  "prototype s' = prototype s \<Longrightarrow> prototype_chain s' a = prototype_chain s a"
  by (auto simp: prototype_chain_def split: val.splits ref.splits)

lemma answer_cong:
  assumes "heap s' = heap s" "prototype s' = prototype s" "proto_accessor s' = proto_accessor s"
  shows "answer s' a k = answer s a k"
proof -
  have "find_property s' (prototype_chain s' a) k = find_property s (prototype_chain s a) k"
    using find_property_cong [OF assms(1,3)] prototype_chain_cong [OF assms(2)] by simp
  with assms(2) show ?thesis
    by (auto simp: answer_def split: found.splits)
qed

lemma same_objects_refl [simp]: "same_objects s s"
  by (simp add: same_objects_def)

lemma same_objects_trans: "same_objects s s' \<Longrightarrow> same_objects s' s'' \<Longrightarrow> same_objects s s''"
  by (simp add: same_objects_def)

lemma same_objects_emit [simp]: "same_objects s (emit e s') = same_objects s s'"
  by (simp add: same_objects_def)

lemma same_objects_upd [simp]:
  "same_objects s (s'\<lparr>fresh := n\<rparr>) = same_objects s s'"
  "same_objects s (s'\<lparr>childrens := c\<rparr>) = same_objects s s'"
  "same_objects s (s'\<lparr>proxiedChildrenSet := ps\<rparr>) = same_objects s s'"
  by (simp_all add: same_objects_def)

lemma answer_same: "same_objects s s' \<Longrightarrow> answer s' a k = answer s a k"
  by (rule answer_cong) (simp_all add: same_objects_def)

text \<open>A read changes neither the objects nor the emitter's listeners.\<close>

lemma js_get_frame:
  "same_objects s (snd (js_get r k s)) \<and>
   parentTarget (snd (js_get r k s)) = parentTarget s \<and>
   listeners (snd (js_get r k s)) = listeners s"
proof (induction r arbitrary: s)
  case (Obj a)
  show ?case by simp
next
  case (Prx i t p)
  obtain v s1 where g: "js_get t k s = (v, s1)"
    by (cases "js_get t k s")
  with Prx [of s] have "same_objects s s1"
    "parentTarget s1 = parentTarget s" "listeners s1 = listeners s"
    by simp_all
  with g show ?case
    by (cases v) (simp_all add: Let_def split: option.splits)
qed

lemma js_get_heap [simp]: "heap (snd (js_get r k s)) = heap s"
  using js_get_frame [of s r k] by (simp add: same_objects_def)

lemma js_get_arrays [simp]: "arrays (snd (js_get r k s)) = arrays s"
  using js_get_frame [of s r k] by (simp add: same_objects_def)

text \<open>A read that answers undefined or null has changed nothing at all.\<close>

lemma js_get_nullish:
  "fst (js_get r k s) = Undefined \<or> fst (js_get r k s) = Null \<Longrightarrow> snd (js_get r k s) = s"
proof (induction r arbitrary: s)
  case (Obj a)
  show ?case by simp
next
  case (Prx i t p)
  obtain v s1 where g: "js_get t k s = (v, s1)"
    by (cases "js_get t k s")
  show ?case
  proof (cases "v = Undefined \<or> v = Null")
    case True
    with g Prx.IH [of s] have "s1 = s" by simp
    with g True show ?thesis by auto
  next
    case False
    with g Prx.prems show ?thesis
      by (cases v) (auto simp: Let_def split: option.splits if_splits)
  qed
qed

text \<open>A value that is not an object comes through every proxy layer as it is.\<close>

lemma raw_Prx [simp]: "raw s (Prx i t p) k = raw s t k"
  by (simp add: raw_def)



lemma answer_own: "heap s a k = Some v \<Longrightarrow> answer s a k = v"
  by (simp add: answer_def prototype_chain_def)

lemma find_property_not_accessor:
  "k \<noteq> ''__proto__'' \<Longrightarrow> find_property s hs k \<noteq> Accessor"
  by (induction hs) (simp_all split: option.splits)

lemma js_set_Obj_plain:
  "k \<noteq> ''__proto__'' \<Longrightarrow> a \<notin> arrays s \<Longrightarrow>
   js_set (Obj a) k v s = (Inr (), plain_store a k v s)"
  using find_property_not_accessor [of k s "prototype_chain s a"]
  by (cases "find_property s (prototype_chain s a) k") (simp_all add: put_own_def)

text \<open>
  A property of sessions that reads keep, and that does not depend on the properties and
  prototypes of the objects, is kept by every assignment to an ordinary object.
\<close>

lemma object_to_number_preserves:
  assumes get: "\<And>r k s. P s \<Longrightarrow> P (snd (js_get r k s))"
  shows "P s \<Longrightarrow> P (snd (object_to_number r s))"
proof -
  assume "P s"
  then have "P (snd (js_get r ''toString'' (snd (js_get r ''valueOf'' s))))"
    by (intro get)
  then show ?thesis
    by (auto simp: object_to_number_def split: prod.splits)
qed

lemma to_length_preserves:
  assumes get: "\<And>r k s. P s \<Longrightarrow> P (snd (js_get r k s))"
  shows "P s \<Longrightarrow> P (snd (to_length v s))"
proof (cases v)
  case (Ref r)
  assume s: "P s"
  have 1: "P (snd (object_to_number r s))"
    by (rule object_to_number_preserves [where P = P]) (fact get s)+
  have "P (snd (object_to_number r (snd (object_to_number r s))))"
    by (rule object_to_number_preserves [where P = P]) (fact get 1)+
  with 1 Ref show ?thesis
    by (auto split: prod.splits sum.splits)
qed simp_all

lemma js_set_Obj_preserves:
  assumes get: "\<And>r k s. P s \<Longrightarrow> P (snd (js_get r k s))"
    and heap: "\<And>s h. P s \<Longrightarrow> P (s\<lparr>heap := h\<rparr>)"
    and proto: "\<And>s f. P s \<Longrightarrow> P (s\<lparr>prototype := f\<rparr>)"
  shows "P s \<Longrightarrow> P (snd (js_set (Obj a) k v s))"
proof -
  assume s: "P s"
  have setter: "P (snd (proto_setter a v s))"
    using s proto by (simp add: proto_setter_def)
  have len: "P (snd (to_length v s))"
    by (rule to_length_preserves [where P = P]) (fact get s)+
  have own: "P (snd (put_own a k v s))"
    using s len heap
    by (auto simp: put_own_def plain_store_def split: prod.splits sum.splits option.splits)
  from setter own show ?thesis
    by (cases "find_property s (prototype_chain s a) k") simp_all
qed

section \<open>The child-proxy table\<close>

lemma cache_ok_emit [simp]: "cache_ok (emit e s) = cache_ok s"
  by (simp add: cache_ok_def)

lemma cache_ok_upd [simp]:
  "cache_ok (s\<lparr>heap := h\<rparr>) = cache_ok s"
  "cache_ok (s\<lparr>prototype := f\<rparr>) = cache_ok s"
  "cache_ok (s\<lparr>proto_accessor := A\<rparr>) = cache_ok s"
  by (simp_all add: cache_ok_def)

lemma unwrap_prim: "typeof v \<noteq> ''object'' \<Longrightarrow> unwrap x = unwrap v \<Longrightarrow> x = v"
  by (cases v; cases x) simp_all

lemma js_get_unwrap:
  "cache_ok s \<Longrightarrow>
   unwrap (fst (js_get r k s)) = unwrap (raw s r k) \<and> cache_ok (snd (js_get r k s))"
proof (induction r arbitrary: s)
  case (Obj a)
  then show ?case by (simp add: raw_def)
next
  case (Prx i t p)
  obtain x s1 where g: "js_get t k s = (x, s1)"
    by (cases "js_get t k s")
  with Prx.IH [OF Prx.prems] have x: "unwrap x = unwrap (raw s t k)" and c: "cache_ok s1"
    by simp_all
  have "unwrap (fst (js_get (Prx i t p) k s)) = unwrap x \<and>
        cache_ok (snd (js_get (Prx i t p) k s))"
  proof (cases x)
    case (Ref xr)
    show ?thesis
    proof (cases "childrens s1 xr")
      case None
      with g Ref c show ?thesis
        by (simp add: Let_def cache_ok_def)
    next
      case (Some q)
      with c have "base q = base xr"
        by (simp add: cache_ok_def)
      with g Ref c Some show ?thesis
        by (simp add: Let_def)
    qed
  qed (use g c in \<open>simp_all add: Let_def\<close>)
  with x show ?case by simp
qed

lemma cache_ok_get: "cache_ok s \<Longrightarrow> cache_ok (snd (js_get r k s))"
  by (simp add: js_get_unwrap)

lemma is_proxy_object: "is_proxy v \<Longrightarrow> typeof v = ''object'' \<and> v \<noteq> Null \<and> v \<noteq> Undefined"
  by (cases v rule: is_proxy.cases) simp_all

text \<open>Where the raw read finds a proxy, every proxy layer above answers a proxy.\<close>

lemma js_get_proxy:
  "cache_ok s \<Longrightarrow> is_proxy (raw s r k) \<Longrightarrow> is_proxy (fst (js_get r k s))"
proof (induction r arbitrary: s)
  case (Obj a)
  then show ?case by (simp add: raw_def)
next
  case (Prx i t p)
  obtain x s1 where g: "js_get t k s = (x, s1)"
    by (cases "js_get t k s")
  with Prx.IH [of s] Prx.prems cache_ok_get [OF Prx.prems(1), of t k]
  have x: "is_proxy x" and c: "cache_ok s1"
    by simp_all
  then obtain xr where r: "x = Ref xr"
    by (cases x rule: is_proxy.cases) simp_all
  show ?case
  proof (cases "childrens s1 xr")
    case None
    with g r x show ?thesis
      by (simp add: Let_def)
  next
    case (Some q)
    with c have "is_proxy (Ref q)"
      by (simp add: cache_ok_def)
    with g r x Some show ?thesis
      by (simp add: Let_def)
  qed
qed

lemma resolve_stored_unwrap:
  "cache_ok s \<Longrightarrow> v \<noteq> Null \<Longrightarrow>
   \<exists>x. fst (resolve_stored v np s) = Inr x \<and> x \<noteq> Null \<and> unwrap x = unwrap v \<and>
       (typeof v = ''object'' \<longrightarrow> is_proxy x) \<and>
       cache_ok (snd (resolve_stored v np s)) \<and> same_objects s (snd (resolve_stored v np s))"
proof (cases v)
  case (Ref r)
  assume c: "cache_ok s"
  show ?thesis
  proof (cases "childrens s r")
    case None
    with Ref c show ?thesis
      by (simp add: resolve_stored_def cache_ok_def)
  next
    case (Some q)
    with c have "base q = base r" "is_proxy (Ref q)"
      by (simp_all add: cache_ok_def)
    with Ref c Some show ?thesis
      by (simp add: resolve_stored_def)
  qed
qed (simp_all add: resolve_stored_def)

lemma cache_ok_resolve: "cache_ok s \<Longrightarrow> cache_ok (snd (resolve_stored v np s))"
proof (cases "v = Null")
  case True
  assume "cache_ok s"
  with True show ?thesis
    by (simp add: resolve_stored_def)
next
  case False
  assume "cache_ok s"
  from resolve_stored_unwrap [OF this False, of np] show ?thesis
    by blast
qed

text \<open>
  Writing, for a key other than \<open>__proto__\<close> of an object that is not an array, in a
  session with a sound table: a value other than null is written without an exception,
  and the object then holds a reference to the same underlying object, or the value
  itself when it is not an object; through a proxy, an object is stored as a proxy.
\<close>

lemma js_set_unwrap:
  "cache_ok s \<Longrightarrow> v \<noteq> Null \<Longrightarrow> k \<noteq> ''__proto__'' \<Longrightarrow> base r \<notin> arrays s \<Longrightarrow>
   fst (js_set r k v s) = Inr () \<and>
   (\<exists>x. heap (snd (js_set r k v s)) (base r) k = Some x \<and> unwrap x = unwrap v \<and>
        (is_proxy v \<or> typeof v = ''object'' \<and> is_proxy (Ref r) \<longrightarrow> is_proxy x)) \<and>
   cache_ok (snd (js_set r k v s))"
proof (induction r arbitrary: s v)
  case (Obj a)
  then have "js_set (Obj a) k v s = (Inr (), plain_store a k v s)"
    by (simp add: js_set_Obj_plain del: js_set.simps)
  with Obj.prems(1) show ?case
    by (simp add: plain_store_def del: js_set.simps)
next
  case (Prx i t p)
  from resolve_stored_unwrap [OF Prx.prems(1,2), of "p @ [k]"]
  obtain x s1 where r: "resolve_stored v (p @ [k]) s = (Inr x, s1)" and x: "x \<noteq> Null"
    "unwrap x = unwrap v" and px: "typeof v = ''object'' \<longrightarrow> is_proxy x"
    and c1: "cache_ok s1" and o: "same_objects s s1"
    by (cases "resolve_stored v (p @ [k]) s") auto
  from o Prx.prems(4) have a1: "base t \<notin> arrays s1"
    by (simp add: same_objects_def)
  obtain u s2 where st: "js_set t k x s1 = (u, s2)"
    by (cases "js_set t k x s1")
  with Prx.IH [OF c1 x(1) Prx.prems(3) a1] obtain y where u: "u = Inr ()"
    and h: "heap s2 (base t) k = Some y" "unwrap y = unwrap x"
    and py: "is_proxy x \<longrightarrow> is_proxy y" and c2: "cache_ok s2"
    by auto
  from px py have p: "is_proxy v \<or> typeof v = ''object'' \<longrightarrow> is_proxy y"
    by (auto dest: is_proxy_object)
  obtain z s3 where g: "js_get t k s2 = (z, s3)"
    by (cases "js_get t k s2")
  with js_get_heap [of t k s2] cache_ok_get [OF c2, of t k]
  have "heap s3 = heap s2" "cache_ok s3"
    by simp_all
  with r st u h x g p show ?case by simp
qed

text \<open>
  Writing and reading back, under the same conditions and for an object whose prototype
  chain consists of ordinary objects: what the same proxy reads right after the write is
  the value itself when it is not an object, and a proxy over the same underlying object
  when it is.
\<close>

lemma write_then_read_back:
  assumes "cache_ok s" and "v \<noteq> Null" and "k \<noteq> ''__proto__''" and "base t \<notin> arrays s"
    and "chain_complete s (base t)"
  shows "fst (js_set (Prx i t p) k v s) = Inr () \<and>
         unwrap (fst (js_get (Prx i t p) k (snd (js_set (Prx i t p) k v s)))) = unwrap v \<and>
         (typeof v \<noteq> ''object'' \<longrightarrow>
            fst (js_get (Prx i t p) k (snd (js_set (Prx i t p) k v s))) = v) \<and>
         (typeof v = ''object'' \<longrightarrow>
            is_proxy (fst (js_get (Prx i t p) k (snd (js_set (Prx i t p) k v s)))))"
proof -
  let ?r = "Prx i t p"
  let ?s = "snd (js_set ?r k v s)"
  from assms(4) have "base ?r \<notin> arrays s" by simp
  from js_set_unwrap [OF assms(1-3) this]
  obtain x where ok: "fst (js_set ?r k v s) = Inr ()"
    and h: "heap ?s (base ?r) k = Some x" "unwrap x = unwrap v"
    and px: "typeof v = ''object'' \<longrightarrow> is_proxy x" and c: "cache_ok ?s"
    by auto
  from h have r: "raw ?s ?r k = x"
    by (simp add: raw_def answer_own)
  with h js_get_unwrap [OF c, of ?r k] have "unwrap (fst (js_get ?r k ?s)) = unwrap v"
    by simp
  moreover from r px js_get_proxy [OF c, of ?r k]
  have "typeof v = ''object'' \<longrightarrow> is_proxy (fst (js_get ?r k ?s))"
    by simp
  ultimately show ?thesis
    using ok by (auto dest: unwrap_prim)
qed

text \<open>The table stays sound along every run of a session.\<close>

lemma cache_ok_set: "cache_ok s \<Longrightarrow> cache_ok (snd (js_set r k v s))"
proof (induction r arbitrary: s v)
  case (Obj a)
  show ?case
    by (rule js_set_Obj_preserves [where P = cache_ok]) (simp_all add: cache_ok_get Obj)
next
  case (Prx i t p)
  obtain x s1 where r: "resolve_stored v (p @ [k]) s = (x, s1)"
    by (cases "resolve_stored v (p @ [k]) s")
  with cache_ok_resolve [OF Prx.prems, of v "p @ [k]"] have s1: "cache_ok s1"
    by simp
  show ?case
  proof (cases x)
    case (Inl e)
    with r s1 show ?thesis by simp
  next
    case (Inr y)
    obtain u s2 where st: "js_set t k y s1 = (u, s2)"
      by (cases "js_set t k y s1")
    with Prx.IH [OF s1, of y] have s2: "cache_ok s2" by simp
    obtain z s3 where g: "js_get t k s2 = (z, s3)"
      by (cases "js_get t k s2")
    with cache_ok_get [OF s2, of t k] have "cache_ok s3" by simp
    with r Inr st g s2 show ?thesis
      by (cases u) simp_all
  qed
qed

lemma cache_ok_delete: "cache_ok s \<Longrightarrow> cache_ok (snd (js_delete r k s))"
proof (induction r arbitrary: s)
  case (Obj a)
  then show ?case by (simp split: option.splits)
next
  case (Prx i t p)
  obtain t1 s1 where g1: "js_get t k s = (t1, s1)"
    by (cases "js_get t k s")
  with cache_ok_get [OF Prx.prems, of t k] have s1: "cache_ok s1" by simp
  obtain t2 s2 where g2: "js_get t k s1 = (t2, s2)"
    by (cases "js_get t k s1")
  with cache_ok_get [OF s1, of t k] have s2: "cache_ok s2" by simp
  obtain u s3 where d: "js_delete t k s2 = (u, s3)"
    by (cases "js_delete t k s2")
  with Prx.IH [OF s2] have s3: "cache_ok s3" by simp
  with g1 g2 d show ?case
    by (cases u) (auto simp: strict_delete_def Let_def split: bool.splits)
qed

lemma cache_ok_step: "cache_ok s \<Longrightarrow> cache_ok (step op s)"
proof (cases op)
  case (Delete r k)
  assume "cache_ok s"
  from cache_ok_delete [OF this, of r k] Delete show ?thesis
    by (cases "js_delete r k s") (auto simp: strict_delete_def split: sum.splits bool.splits)
qed (simp_all add: cache_ok_get cache_ok_set)

lemma cache_ok_run: "cache_ok s \<Longrightarrow> cache_ok (fold step ops s)"
  by (induction ops arbitrary: s) (simp_all add: cache_ok_step)

lemma createProxy_cache_ok: "createProxy target m = Inr (proxy, s0) \<Longrightarrow> cache_ok s0"
  by (auto simp: createProxy_def cache_ok_def Let_def split: val.splits if_splits prod.splits)

lemma createStorage_cache_ok: "createStorage data m = Inr (proxy, s0) \<Longrightarrow> cache_ok s0"
  by (auto simp: createStorage_def emitter_on_def cache_ok_def split: sum.splits
      dest!: createProxy_cache_ok)

section \<open>Repeated reads, and deleting a key that is present\<close>

text \<open>
  Reading a key again, after any reads in between, returns the very value the first
  read returned: the same proxy for an object.
\<close>

lemma cache_le_refl: "cache_le s s"
  by (simp add: cache_le_def)

lemma cache_le_trans: "cache_le s s' \<Longrightarrow> cache_le s' s'' \<Longrightarrow> cache_le s s''"
  by (auto simp: cache_le_def intro: map_le_trans)

lemma cache_le_emit: "cache_le s (emit e s)"
  by (simp add: cache_le_def)

text \<open>The \<open>get\<close> trap after its raw read, by the value read.\<close>

lemma js_get_Prx:
  "js_get t k s = (x, s1) \<Longrightarrow>
   js_get (Prx i t p) k s =
     (if x = Undefined \<or> x = Null then (x, s1)
      else case x of
        Ref r \<Rightarrow>
          (if r \<in> proxiedChildrenSet s1 then (x, emit (Event GET (parentTarget s1) (p @ [k]) x) s1)
           else case childrens s1 r of
             Some q \<Rightarrow> (Ref q, emit (Event GET (parentTarget s1) (p @ [k]) x) s1)
           | None \<Rightarrow>
               (Ref (Prx (fresh s1) r (p @ [k])),
                (emit (Event GET (parentTarget s1) (p @ [k]) x) s1)
                  \<lparr>fresh := Suc (fresh s1),
                   childrens := (childrens s1)(r \<mapsto> Prx (fresh s1) r (p @ [k]))\<rparr>))
      | _ \<Rightarrow> (x, emit (Event GET (parentTarget s1) (p @ [k]) x) s1))"
  by (cases x) (auto simp: Let_def split: option.splits)

lemma js_get_Prx_le:
  "js_get t k s = (x, s1) \<Longrightarrow> cache_le s1 (snd (js_get (Prx i t p) k s))"
  unfolding js_get_Prx
  by (cases x) (auto simp: cache_le_def map_le_def split: option.splits)

lemma js_get_cache_le: "cache_le s (snd (js_get r k s))"
proof (induction r arbitrary: s)
  case (Obj a)
  show ?case by (simp add: cache_le_refl)
next
  case (Prx i t p)
  obtain x s1 where g: "js_get t k s = (x, s1)"
    by (cases "js_get t k s")
  with Prx [of s] have a: "cache_le s s1" by simp
  from a js_get_Prx_le [OF g] show ?case by (rule cache_le_trans)
qed

lemma map_le_Some: "m \<subseteq>\<^sub>m m' \<Longrightarrow> m r = Some q \<Longrightarrow> m' r = Some q"
  by (auto simp: map_le_def dom_def)

lemma js_get_stable:
  "js_get r k s = (v, s1) \<Longrightarrow> cache_le s1 s' \<Longrightarrow> fst (js_get r k s') = v"
proof (induction r arbitrary: s v s1 s')
  case (Obj a)
  then have "answer s' a k = answer s a k"
    by (intro answer_cong) (auto simp: cache_le_def)
  with Obj show ?case by auto
next
  case (Prx i t p)
  obtain x sa where g: "js_get t k s = (x, sa)"
    by (cases "js_get t k s")
  from js_get_Prx_le [OF g, of i p] Prx.prems(1) have a1: "cache_le sa s1"
    by simp
  from a1 Prx.prems(2) have "cache_le sa s'"
    by (rule cache_le_trans)
  from Prx.IH [OF g this] obtain sb where g': "js_get t k s' = (x, sb)"
    by (cases "js_get t k s'") auto
  with js_get_cache_le [of s' t k] have "cache_le s' sb" by simp
  with Prx.prems(2) have le: "cache_le s1 sb"
    by (rule cache_le_trans)
  from a1 le have same: "proxiedChildrenSet sb = proxiedChildrenSet sa"
    by (simp add: cache_le_def)
  from le have up: "childrens s1 r = Some q \<Longrightarrow> childrens sb r = Some q" for r q
    by (auto simp: cache_le_def intro: map_le_Some)
  show ?case
  proof (cases x)
    case (Ref xr)
    show ?thesis
    proof (cases "xr \<in> proxiedChildrenSet sa")
      case True
      with Prx.prems(1) Ref have v: "v = Ref xr"
        by (auto simp: js_get_Prx [OF g] simp del: js_get.simps)
      from v Ref True same show ?thesis
        by (simp add: js_get_Prx [OF g'] del: js_get.simps)
    next
      case False
      show ?thesis
      proof (cases "childrens sa xr")
        case None
        with Prx.prems(1) Ref False
        have v: "v = Ref (Prx (fresh sa) xr (p @ [k]))"
          and "childrens s1 xr = Some (Prx (fresh sa) xr (p @ [k]))"
          by (auto simp: js_get_Prx [OF g] simp del: js_get.simps)
        from up [OF this(2)] v Ref False same show ?thesis
          by (simp add: js_get_Prx [OF g'] del: js_get.simps)
      next
        case (Some q)
        with Prx.prems(1) Ref False
        have v: "v = Ref q" and "childrens s1 xr = Some q"
          by (auto simp: js_get_Prx [OF g] simp del: js_get.simps)
        from up [OF this(2)] v Ref False same show ?thesis
          by (simp add: js_get_Prx [OF g'] del: js_get.simps)
      qed
    qed
  qed (use Prx.prems(1) in \<open>auto simp: js_get_Prx [OF g] js_get_Prx [OF g'] simp del: js_get.simps\<close>)
qed

lemma read_twice_same:
  "js_get r k s = (v, s1) \<Longrightarrow> fst (js_get r k s1) = v"
  by (erule js_get_stable) (rule cache_le_refl)

text \<open>
  Deleting, through a proxy over an ordinary object, a key that the object has: one
  \<open>DEL\<close> event, with the value itself when it is not an object and the entry of
  \<open>childrens\<close> otherwise, and the own property is gone. A property that cannot be
  deleted, as the \<open>length\<close> of an array, makes the strict \<open>delete\<close> throw, and nothing
  is emitted.
\<close>

lemma delete_present_key:
  assumes "heap s a k = Some v"
  shows "(a, k) \<notin> fixed s \<Longrightarrow> \<not> (a \<in> arrays s \<and> k = ''length'') \<Longrightarrow>
           fst (js_delete (Prx i (Obj a) p) k s) = Inr True \<and>
           emitted (snd (js_delete (Prx i (Obj a) p) k s)) =
             emitted s @ [Event DEL (parentTarget s) (p @ [k])
                (if typeof v = ''object'' then weakmap_get (childrens s) v else v)] \<and>
           heap (snd (js_delete (Prx i (Obj a) p) k s)) a k = None"
    and "(a, k) \<in> fixed s \<or> (a \<in> arrays s \<and> k = ''length'') \<Longrightarrow>
           js_delete (Prx i (Obj a) p) k s = (Inl TypeError, s)"
  using assms by (auto simp: strict_delete_def Let_def answer_own)

text \<open>
  Deleting through a proxy over an ordinary object a key that the object does not have
  but its prototype chain answers with a function or another value that is not an
  object: the deletion succeeds, and \<open>DEL\<close> carries the inherited value.
\<close>

lemma delete_inherited_key:
  assumes "heap s a k = None" and "typeof (answer s a k) \<noteq> ''object''"
  shows "fst (js_delete (Prx i (Obj a) p) k s) = Inr True \<and>
         emitted (snd (js_delete (Prx i (Obj a) p) k s)) =
           emitted s @ [Event DEL (parentTarget s) (p @ [k]) (answer s a k)] \<and>
         heap (snd (js_delete (Prx i (Obj a) p) k s)) = heap s"
  using assms by (auto simp: strict_delete_def Let_def)

lemma createProxy_demo:
  "createProxy (Ref (Obj 1)) demo_memory = Inr (demo_root, demo_proxy_session)"
  by (simp add: createProxy_def demo_memory_def demo_root_def demo_proxy_session_def)

lemma createStorage_demo:
  "createStorage (Ref (Obj 1)) demo_memory = Inr (demo_root, demo_storage_session)"
  using createProxy_demo
  by (simp add: createStorage_def demo_storage_session_def emitter_on_def fun_eq_iff
      demo_proxy_session_def)

lemmas demo_defs =
  demo_root_def demo_list_def demo_array_session_def demo_storage_session_def
  demo_proxy_session_def demo_memory_def ObjectPrototype_members_def
  resolve_stored_def emit_def strict_delete_def Let_def
  answer_def prototype_chain_def put_own_def proto_setter_def plain_store_def
  array_index_def array_length_def set_length_def digit_value_def object_to_number_def

section \<open>The storage session keeps one backend write per mutating event\<close>

lemma in_session_emit: "in_session root s \<Longrightarrow> in_session root (emit e s)"
  by (cases "ev_kind e") (auto simp: in_session_def mutating_def)

lemma in_session_upd [simp]:
  "in_session root (s\<lparr>fresh := n\<rparr>) = in_session root s"
  "in_session root (s\<lparr>childrens := c\<rparr>) = in_session root s"
  "in_session root (s\<lparr>proxiedChildrenSet := ps\<rparr>) = in_session root s"
  "in_session root (s\<lparr>heap := h\<rparr>) = in_session root s"
  "in_session root (s\<lparr>prototype := f\<rparr>) = in_session root s"
  "in_session root (s\<lparr>proto_accessor := A\<rparr>) = in_session root s"
  by (simp_all add: in_session_def)

lemma in_session_get: "in_session root s \<Longrightarrow> in_session root (snd (js_get r k s))"
proof (induction r arbitrary: s)
  case (Obj a)
  then show ?case by simp
next
  case (Prx i t p)
  obtain v s1 where g: "js_get t k s = (v, s1)"
    by (cases "js_get t k s")
  with Prx.IH [OF Prx.prems] have s1: "in_session root s1" by simp
  then have "in_session root (emit e s1)" for e
    by (rule in_session_emit)
  with g s1 show ?case
    by (cases v) (simp_all add: Let_def split: option.splits)
qed

lemma in_session_resolve:
  "in_session root s \<Longrightarrow> in_session root (snd (resolve_stored v np s))"
  by (cases v) (simp_all add: resolve_stored_def split: option.splits)

lemma in_session_set: "in_session root s \<Longrightarrow> in_session root (snd (js_set r k v s))"
proof (induction r arbitrary: s v)
  case (Obj a)
  show ?case
    by (rule js_set_Obj_preserves [where P = "in_session root"])
      (simp_all add: in_session_get Obj)
next
  case (Prx i t p)
  obtain x s1 where r: "resolve_stored v (p @ [k]) s = (x, s1)"
    by (cases "resolve_stored v (p @ [k]) s")
  with in_session_resolve [OF Prx.prems, of v "p @ [k]"] have s1: "in_session root s1"
    by simp
  show ?case
  proof (cases x)
    case (Inl e)
    with r s1 show ?thesis by simp
  next
    case (Inr y)
    obtain u s2 where st: "js_set t k y s1 = (u, s2)"
      by (cases "js_set t k y s1")
    with Prx.IH [OF s1, of y] have s2: "in_session root s2" by simp
    obtain z s3 where g: "js_get t k s2 = (z, s3)"
      by (cases "js_get t k s2")
    with in_session_get [OF s2, of t k] have "in_session root s3" by simp
    then have "in_session root (emit e s3)" for e
      by (rule in_session_emit)
    with r Inr st g s2 show ?thesis
      by (cases u) simp_all
  qed
qed

lemma in_session_delete: "in_session root s \<Longrightarrow> in_session root (snd (js_delete r k s))"
proof (induction r arbitrary: s)
  case (Obj a)
  then show ?case by (simp split: option.splits)
next
  case (Prx i t p)
  obtain t1 s1 where g1: "js_get t k s = (t1, s1)"
    by (cases "js_get t k s")
  with in_session_get [OF Prx.prems, of t k] have s1: "in_session root s1" by simp
  obtain t2 s2 where g2: "js_get t k s1 = (t2, s2)"
    by (cases "js_get t k s1")
  with in_session_get [OF s1, of t k] have s2: "in_session root s2" by simp
  obtain u s3 where d: "js_delete t k s2 = (u, s3)"
    by (cases "js_delete t k s2")
  with Prx.IH [OF s2] have s3: "in_session root s3" by simp
  then have "in_session root (emit e s3)" for e
    by (rule in_session_emit)
  with g1 g2 d s3 show ?case
    by (cases u) (auto simp: strict_delete_def Let_def split: bool.splits)
qed

lemma in_session_step: "in_session root s \<Longrightarrow> in_session root (step op s)"
proof (cases op)
  case (Delete r k)
  assume "in_session root s"
  from in_session_delete [OF this, of r k] Delete show ?thesis
    by (cases "js_delete r k s") (auto simp: strict_delete_def split: sum.splits bool.splits)
qed (simp_all add: in_session_get in_session_set)

lemma in_session_run: "in_session root s \<Longrightarrow> in_session root (fold step ops s)"
  by (induction ops arbitrary: s) (simp_all add: in_session_step)

lemma createStorage_in_session:
  "createStorage data m = Inr (proxy, s0) \<Longrightarrow> in_session proxy s0"
  by (auto simp: createStorage_def createProxy_def emitter_on_def in_session_def Let_def
      split: sum.splits val.splits if_splits prod.splits)

lemma not_mutating_GET: "\<not> mutating (Event GET a b c)"
  by (simp add: mutating_def)

lemma js_get_backend:
  "listeners s GET = [] \<Longrightarrow>
   backend_sets (snd (js_get r k s)) = backend_sets s \<and>
   filter mutating (emitted (snd (js_get r k s))) = filter mutating (emitted s)"
proof (induction r arbitrary: s)
  case (Obj a)
  then show ?case by simp
next
  case (Prx i t p)
  obtain v s1 where g: "js_get t k s = (v, s1)"
    by (cases "js_get t k s")
  with Prx.IH [OF Prx.prems] js_get_frame [where r = t and k = k and s = s] Prx.prems
  have "backend_sets s1 = backend_sets s"
    "filter mutating (emitted s1) = filter mutating (emitted s)" "listeners s1 GET = []"
    by simp_all
  with g show ?case
    by (cases v) (simp_all add: Let_def emit_def not_mutating_GET split: option.splits)
qed


section \<open>The object model on examples\<close>

text \<open>
  Keys that an object inherits are read through the proxy: the members of
  \<^verbatim>\<open>Object.prototype\<close> and of \<^verbatim>\<open>Array.prototype\<close> as functions, \<^verbatim>\<open>__proto__\<close> as a child
  proxy over the prototype.
\<close>

lemma inherited_keys_example:
  "fst (js_get demo_root ''toString'' demo_proxy_session) = Fun ''toString'' \<and>
   fst (js_get demo_root ''constructor'' demo_proxy_session) = Fun ''Object'' \<and>
   fst (js_get demo_root ''__proto__'' demo_proxy_session) = Ref (Prx 5 (Obj 0) [''__proto__'']) \<and>
   fst (js_get demo_list ''push'' demo_array_session) = Fun ''push'' \<and>
   fst (js_get demo_list ''valueOf'' demo_array_session) = Fun ''valueOf'' \<and>
   fst (js_get demo_list ''__proto__'' demo_array_session) =
     Ref (Prx 5 (Obj 8) [''list'', ''__proto__''])"
  by (simp add: demo_defs)

text \<open>
  Writes to an array through the proxy: a length that is not an integer from 0 to
  \<open>2^32 - 1\<close> throws a \<open>RangeError\<close> and emits nothing; a length given as a string is
  converted and the elements beyond it are removed; a write beyond the end grows the
  length.
\<close>

lemma array_write_example:
  "js_set demo_list ''length'' (Num (- 1)) demo_array_session =
     (Inl RangeError, demo_array_session) \<and>
   js_set demo_list ''length'' Undefined demo_array_session =
     (Inl RangeError, demo_array_session) \<and>
   fst (js_set demo_list ''length'' (Str ''1'') demo_array_session) = Inr () \<and>
   heap (snd (js_set demo_list ''length'' (Str ''1'') demo_array_session)) 7 ''0'' =
     Some (Num 10) \<and>
   heap (snd (js_set demo_list ''length'' (Str ''1'') demo_array_session)) 7 ''1'' = None \<and>
   fst (js_get demo_list ''length''
          (snd (js_set demo_list ''length'' (Str ''1'') demo_array_session))) = Num 1 \<and>
   fst (js_set demo_list ''5'' (Num 60) demo_array_session) = Inr () \<and>
   heap (snd (js_set demo_list ''5'' (Num 60) demo_array_session)) 7 ''length'' =
     Some (Num 6) \<and>
   js_delete demo_list ''length'' demo_array_session = (Inl TypeError, demo_array_session)"
  by (simp add: demo_defs)

text \<open>
  Writes at key \<^verbatim>\<open>__proto__\<close> run the inherited setter: a value that is not an object is
  ignored, so the read afterwards still answers a proxy over \<^verbatim>\<open>Object.prototype\<close>; an
  object becomes the prototype, after being wrapped by the \<open>set\<close> trap.
\<close>

lemma proto_write_example:
  "fst (js_set demo_root ''__proto__'' (Num 5) demo_proxy_session) = Inr () \<and>
   heap (snd (js_set demo_root ''__proto__'' (Num 5) demo_proxy_session)) =
     heap demo_proxy_session \<and>
   fst (js_get demo_root ''__proto__''
          (snd (js_set demo_root ''__proto__'' (Num 5) demo_proxy_session))) =
     Ref (Prx 5 (Obj 0) [''__proto__'']) \<and>
   fst (js_set demo_root ''__proto__'' (Ref (Obj 3)) demo_proxy_session) = Inr () \<and>
   prototype (snd (js_set demo_root ''__proto__'' (Ref (Obj 3)) demo_proxy_session)) 1 =
     Ref (Prx 5 (Obj 3) [''__proto__''])"
  by (simp add: demo_defs)

text \<open>
  Writing and reading back in the example session: a string comes back as it is, the
  empty object at address 3 as a proxy over it.
\<close>

lemma write_then_read_example:
  "fst (js_get demo_root ''mode''
          (snd (js_set demo_root ''mode'' (Str ''on'') demo_proxy_session))) = Str ''on'' \<and>
   is_proxy (fst (js_get demo_root ''c''
          (snd (js_set demo_root ''c'' (Ref (Obj 3)) demo_proxy_session)))) \<and>
   unwrap (fst (js_get demo_root ''c''
          (snd (js_set demo_root ''c'' (Ref (Obj 3)) demo_proxy_session)))) = Ref (Obj 3)"
proof -
  have c: "cache_ok demo_proxy_session"
    using createProxy_cache_ok [OF createProxy_demo] .
  have "chain_complete demo_proxy_session (base (Obj 1))"
    "base (Obj 1) \<notin> arrays demo_proxy_session"
    by (simp_all add: demo_defs chain_complete_def)
  with c write_then_read_back [of demo_proxy_session "Str ''on''" "''mode''" "Obj 1" 4 "[]"]
    write_then_read_back [of demo_proxy_session "Ref (Obj 3)" "''c''" "Obj 1" 4 "[]"]
  show ?thesis
    by (simp add: demo_root_def)
qed

section \<open>The claims about the proxy and the storage session\<close>

text \<open>
  Claim C1, at the input where the code departs from it. In the example session
  \<open>null\<close> is written at key \<open>c\<close> through the root proxy. The \<open>set\<close> trap tests
  \<^verbatim>\<open>typeof value === "object"\<close> (line 145), which holds for \<open>null\<close>; \<open>childrens\<close> does not
  have \<open>null\<close>, so the trap calls \<^verbatim>\<open>createProxy(null, ...)\<close>, where \<^verbatim>\<open>new Proxy(null, ...)\<close>
  throws a \<open>TypeError\<close>. Nothing is written and no event is emitted, and the read of
  \<open>c\<close> afterwards returns undefined, not \<open>null\<close>.
\<close>

theorem null_write_throws:
  "js_set demo_root ''c'' Null demo_proxy_session = (Inl TypeError, demo_proxy_session) \<and>
   fst (js_get demo_root ''c'' demo_proxy_session) = Undefined \<and>
   fst (js_get demo_root ''c'' (snd (js_set demo_root ''c'' Null demo_proxy_session))) \<noteq> Null"
  by (simp add: demo_defs)

text \<open>
  Claim C2. In every state that a storage session reaches from \<open>createStorage\<close> by any
  sequence of reads, writes and deletions on any references, the backend's \<open>set\<close> has been
  called as many times as \<open>SET\<close> and \<open>DEL\<close> events have been emitted; and one more read
  there calls the backend no further and emits no mutating event.
\<close>

theorem backend_set_per_mutating_event:
  "createStorage data m = Inr (proxy, s0) \<Longrightarrow>
   length (backend_sets (fold step ops s0)) =
     length (filter mutating (emitted (fold step ops s0))) \<and>
   backend_sets (step (Read r k) (fold step ops s0)) = backend_sets (fold step ops s0) \<and>
   filter mutating (emitted (step (Read r k) (fold step ops s0))) =
     filter mutating (emitted (fold step ops s0))"
proof -
  assume "createStorage data m = Inr (proxy, s0)"
  then have "in_session proxy (fold step ops s0)"
    by (intro in_session_run createStorage_in_session)
  then show ?thesis
    using js_get_backend [of "fold step ops s0" r k] by (simp add: in_session_def)
qed

theorem backend_set_per_mutating_event_witness:
  "createStorage (Ref (Obj 1)) demo_memory = Inr (demo_root, demo_storage_session) \<and>
   length (backend_sets (fold step
      [Write demo_root ''x'' (Num 1), Read demo_root ''x'', Delete demo_root ''x'',
       Read demo_root ''a'', Write demo_root ''a'' Null] demo_storage_session)) = 2 \<and>
   length (filter mutating (emitted (fold step
      [Write demo_root ''x'' (Num 1), Read demo_root ''x'', Delete demo_root ''x'',
       Read demo_root ''a'', Write demo_root ''a'' Null] demo_storage_session))) = 2"
  using createStorage_demo
    backend_set_per_mutating_event [OF createStorage_demo,
      of "[Write demo_root ''x'' (Num 1), Read demo_root ''x'', Delete demo_root ''x'',
           Read demo_root ''a'', Write demo_root ''a'' Null]" demo_root "''x''"]
  by (simp add: demo_defs)

text \<open>
  Claim C3, at the input where the code departs from it. In the example session the
  empty object at address 3 is written at key \<open>c\<close>. The \<open>set\<close> trap stores the new proxy
  5 over the object, but records the object itself, not the proxy, in
  \<open>proxiedChildrenSet\<close>. The read of \<open>c\<close> finds the stored proxy in neither table and
  wraps it in a second proxy, 6.
\<close>

theorem stored_proxy_wrapped_again:
  "heap (snd (js_set demo_root ''c'' (Ref (Obj 3)) demo_proxy_session)) 1 ''c'' =
     Some (Ref (Prx 5 (Obj 3) [''c''])) \<and>
   proxiedChildrenSet (snd (js_set demo_root ''c'' (Ref (Obj 3)) demo_proxy_session)) =
     {Obj 3} \<and>
   fst (js_get demo_root ''c'' (snd (js_set demo_root ''c'' (Ref (Obj 3)) demo_proxy_session))) =
     Ref (Prx 6 (Prx 5 (Obj 3) [''c'']) [''c''])"
  by (simp add: demo_defs)

text \<open>
  Claim C6, at the input where the code departs from it. In the example session key
  \<open>a\<close> holds the object at address 2, which no read has met, and key \<open>n\<close> holds
  \<open>null\<close>. Deleting either succeeds and emits one \<open>DEL\<close> event whose value is undefined:
  \<open>typeof\<close> answers \<open>"object"\<close> for both, and \<open>childrens\<close> has neither.
\<close>

theorem delete_event_value_undefined:
  "heap demo_proxy_session 1 ''a'' = Some (Ref (Obj 2)) \<and>
   fst (js_delete demo_root ''a'' demo_proxy_session) = Inr True \<and>
   emitted (snd (js_delete demo_root ''a'' demo_proxy_session)) =
     [Event DEL (Ref (Obj 1)) [''a''] Undefined] \<and>
   heap demo_proxy_session 1 ''n'' = Some Null \<and>
   emitted (snd (js_delete demo_root ''n'' demo_proxy_session)) =
     [Event DEL (Ref (Obj 1)) [''n''] Undefined]"
  by (simp add: demo_defs)

text \<open>
  Claim C7, as amended. A read of key \<open>k\<close> through the proxy at path \<open>p\<close> first reads
  \<^verbatim>\<open>target[prop]\<close>. If that value is undefined or null, the read returns it and changes
  nothing, so it emits no event. Otherwise the first thing the trap does after the raw
  read is to emit \<open>GET\<close> with the root target, the path \<open>p @ [k]\<close> and that value.
\<close>

theorem get_event_for_present_values:
  "js_get t k s = (v, s1) \<Longrightarrow>
   (if v = Undefined \<or> v = Null then js_get (Prx i t p) k s = (v, s)
    else emitted (snd (js_get (Prx i t p) k s)) =
           emitted s1 @ [Event GET (parentTarget s) (p @ [k]) v])"
proof -
  assume g: "js_get t k s = (v, s1)"
  show ?thesis
  proof (cases "v = Undefined \<or> v = Null")
    case True
    with g js_get_nullish [of t k s] have "s1 = s" by simp
    with g True show ?thesis by auto
  next
    case False
    from g js_get_frame [where r = t and k = k and s = s]
    have "parentTarget s1 = parentTarget s" by simp
    with g False show ?thesis
      by (cases v) (simp_all add: Let_def split: option.splits)
  qed
qed

theorem get_event_for_present_values_witness:
  "js_get (Obj 2) ''b'' demo_proxy_session = (Num 1, demo_proxy_session) \<and>
   emitted (snd (js_get (Prx 5 (Obj 2) [''a'']) ''b'' demo_proxy_session)) =
     [Event GET (Ref (Obj 1)) [''a'', ''b''] (Num 1)] \<and>
   js_get (Obj 1) ''zz'' demo_proxy_session = (Undefined, demo_proxy_session) \<and>
   js_get demo_root ''zz'' demo_proxy_session = (Undefined, demo_proxy_session)"
proof -
  have b: "js_get (Obj 2) ''b'' demo_proxy_session = (Num 1, demo_proxy_session)"
    by (simp add: demo_defs)
  have z: "js_get (Obj 1) ''zz'' demo_proxy_session = (Undefined, demo_proxy_session)"
    by (simp add: demo_defs)
  show ?thesis
    using b z get_event_for_present_values [OF b, of 5 "[''a'']"]
      get_event_for_present_values [OF z, of 4 "[]"]
    by (simp add: demo_root_def demo_proxy_session_def)
qed

text \<open>
  Claim C7 as stated fails for null. In the example session key \<open>n\<close> holds \<open>null\<close>;
  reading it through the root proxy returns \<open>null\<close> and leaves the session as it was,
  with no event emitted.
\<close>

theorem get_null_no_event_counterexample:
  "heap demo_proxy_session 1 ''n'' = Some Null \<and>
   js_get demo_root ''n'' demo_proxy_session = (Null, demo_proxy_session) \<and>
   emitted (snd (js_get demo_root ''n'' demo_proxy_session)) = []"
  by (simp add: demo_defs)



text \<open>
  A key that the object only inherits is not absent: in the storage session, deleting
  \<open>toString\<close> through the root proxy emits \<open>DEL\<close> with the inherited function, and the
  backend's \<open>set\<close> is called as well.
\<close>

lemma delete_inherited_key_example:
  "heap demo_storage_session 1 ''toString'' = None \<and>
   fst (js_delete demo_root ''toString'' demo_storage_session) = Inr True \<and>
   emitted (snd (js_delete demo_root ''toString'' demo_storage_session)) =
     [Event DEL (Ref (Obj 1)) [''toString''] (Fun ''toString'')] \<and>
   backend_sets (snd (js_delete demo_root ''toString'' demo_storage_session)) =
     [Ref demo_root]"
  by (simp add: demo_defs)

section \<open>The claims about the backend adapters\<close>

lemmas native_defs = fileExists_def readFile_def writeFile_def getItem_def removeItem_def

lemma migrate_ok:
  assumes "documents_path N (filePathFixer N (fst (getMMKVPath store 0))) = path"
    and "path = DocumentsDirPath N @ ''/'' @ fst (getMMKVPath store 0)"
    and "files w path = None"
    and "mmkv w store = Some old" "old \<noteq> LARGE_VALUE" "parse N old = Some d"
    and "path \<notin> unwritable w"
  shows "migrate N store dflt w =
     (Inr (), w\<lparr>files := (files w)(path \<mapsto> old), mmkv := (mmkv w)(store := None),
         io_log := io_log w @ [FileExists path, GetItem store, WriteFile path old,
                               GetItem store, RemoveItem store]\<rparr>)"
  using assms by (simp add: migrate_def native_defs Let_def)

lemma migrate_fail:
  assumes "documents_path N (filePathFixer N (fst (getMMKVPath store 0))) = path"
    and "path = DocumentsDirPath N @ ''/'' @ fst (getMMKVPath store 0)"
    and "files w path = None"
    and "mmkv w store = Some old" "old \<noteq> LARGE_VALUE" "parse N old = Some d"
    and "path \<in> unwritable w"
  shows "fst (migrate N store dflt w) = Inl IOError \<and>
         mmkv (snd (migrate N store dflt w)) = mmkv w \<and>
         files (snd (migrate N store dflt w)) = files w"
  using assms by (simp add: migrate_def native_defs Let_def)

lemma migrate_noop:
  assumes "files w (DocumentsDirPath N @ ''/'' @ fst (getMMKVPath store 0)) = Some c"
  shows "migrate N store dflt w =
     (Inr (), w\<lparr>io_log := io_log w @
                 [FileExists (DocumentsDirPath N @ ''/'' @ fst (getMMKVPath store 0))]\<rparr>)"
  using assms by (simp add: migrate_def native_defs Let_def)

lemma fb_get_present:
  assumes "files w (DocumentsDirPath N @ ''/'' @ file) = Some c" "parse N c = Some d"
  shows "fb_get N file dflt None w =
     (Inr d, w\<lparr>io_log := io_log w @ [FileExists (DocumentsDirPath N @ ''/'' @ file),
                                     ReadFile (DocumentsDirPath N @ ''/'' @ file)]\<rparr>)"
  using assms by (simp add: fb_get_def native_defs Let_def)

text \<open>
  Claim C4. Take a file backend with no pending migration, a file manager that writes
  where the adapter reads and does not refuse the write, and a default that
  \<open>JSON.parse\<close> reads back from its \<open>JSON.stringify\<close>. If the file is absent, or present
  with a content that \<open>JSON.parse\<close> rejects, then \<open>get\<close> returns the default and throws
  nothing; the default is on disk afterwards, and it was written before the read that
  produced the result.
\<close>

theorem file_backend_get_default:
  assumes "documents_path N (filePathFixer N file) = DocumentsDirPath N @ ''/'' @ file"
    and "DocumentsDirPath N @ ''/'' @ file \<notin> unwritable w"
    and "parse N (stringify N d) = Some d"
    and disk: "files w (DocumentsDirPath N @ ''/'' @ file) = None \<or>
               (\<exists>c. files w (DocumentsDirPath N @ ''/'' @ file) = Some c \<and> parse N c = None)"
  shows "fst (fb_get N file d None w) = Inr d \<and>
         files (snd (fb_get N file d None w)) (DocumentsDirPath N @ ''/'' @ file) =
           Some (stringify N d) \<and>
         io_log (snd (fb_get N file d None w)) =
           io_log w @ FileExists (DocumentsDirPath N @ ''/'' @ file) #
             (if files w (DocumentsDirPath N @ ''/'' @ file) = None then []
              else [ReadFile (DocumentsDirPath N @ ''/'' @ file)]) @
             [WriteFile (DocumentsDirPath N @ ''/'' @ file) (stringify N d),
              ReadFile (DocumentsDirPath N @ ''/'' @ file)]"
  using disk
proof
  assume "files w (DocumentsDirPath N @ ''/'' @ file) = None"
  with assms(1-3) show ?thesis
    by (simp add: fb_get_def native_defs Let_def)
next
  assume "\<exists>c. files w (DocumentsDirPath N @ ''/'' @ file) = Some c \<and> parse N c = None"
  then obtain c where "files w (DocumentsDirPath N @ ''/'' @ file) = Some c" "parse N c = None"
    by blast
  with assms(1-3) show ?thesis
    by (simp add: fb_get_def native_defs Let_def)
qed

theorem file_backend_get_default_witness:
  "files corrupt_world ''/data/files/settings.json'' = Some ''{tru'' \<and>
   parse demo_native ''{tru'' = None \<and>
   fst (fb_get demo_native ''settings.json'' (JObj []) None corrupt_world) = Inr (JObj []) \<and>
   files (snd (fb_get demo_native ''settings.json'' (JObj []) None corrupt_world))
     ''/data/files/settings.json'' = Some ''{}'' \<and>
   files demo_world ''/data/files/settings.json'' = None \<and>
   fst (fb_get demo_native ''settings.json'' (JObj []) None demo_world) = Inr (JObj []) \<and>
   io_log (snd (fb_get demo_native ''settings.json'' (JObj []) None demo_world)) =
     [FileExists ''/data/files/settings.json'', WriteFile ''/data/files/settings.json'' ''{}'',
      ReadFile ''/data/files/settings.json'']"
  using file_backend_get_default
          [of demo_native "''settings.json''" corrupt_world "JObj []"]
        file_backend_get_default
          [of demo_native "''settings.json''" demo_world "JObj []"]
  by (simp add: demo_native_def demo_legacy_def corrupt_world_def demo_world_def
      filePathFixer_def)

text \<open>
  Claim C5. Take a store with no file yet and a legacy entry that \<open>JSON.parse\<close> reads as
  the document \<open>d\<close> (such as \<^verbatim>\<open>{"a":1}\<close>), and a file manager that writes where the
  adapter reads. If the write succeeds, opening yields \<open>d\<close>, the file holds the legacy
  text, the legacy entry is gone, and it was removed after the write; a second open
  yields \<open>d\<close> again with three calls to the file manager and none to the legacy store,
  which it leaves as it is. If the write fails, opening fails and the legacy entry is
  still there.
\<close>

theorem legacy_migration:
  assumes contract: "documents_path N (filePathFixer N (fst (getMMKVPath store 0))) = path"
    and path: "path = DocumentsDirPath N @ ''/'' @ fst (getMMKVPath store 0)"
    and nofile: "files w path = None"
    and legacy: "mmkv w store = Some old" "old \<noteq> LARGE_VALUE" "parse N old = Some d"
  shows "(path \<notin> unwritable w \<longrightarrow>
           fst (mmkv_open N store dflt w) = Inr d \<and>
           mmkv (snd (mmkv_open N store dflt w)) store = None \<and>
           files (snd (mmkv_open N store dflt w)) path = Some old \<and>
           io_log (snd (mmkv_open N store dflt w)) =
             io_log w @ [FileExists path, GetItem store, WriteFile path old, GetItem store,
                         RemoveItem store, FileExists path, ReadFile path] \<and>
           fst (mmkv_open N store dflt (snd (mmkv_open N store dflt w))) = Inr d \<and>
           io_log (snd (mmkv_open N store dflt (snd (mmkv_open N store dflt w)))) =
             io_log (snd (mmkv_open N store dflt w)) @
               [FileExists path, FileExists path, ReadFile path] \<and>
           mmkv (snd (mmkv_open N store dflt (snd (mmkv_open N store dflt w)))) =
             mmkv (snd (mmkv_open N store dflt w))) \<and>
         (path \<in> unwritable w \<longrightarrow>
           fst (mmkv_open N store dflt w) = Inl IOError \<and>
           mmkv (snd (mmkv_open N store dflt w)) store = Some old)"
proof (intro conjI impI)
  assume wr: "path \<notin> unwritable w"
  let ?w1 = "w\<lparr>files := (files w)(path \<mapsto> old), mmkv := (mmkv w)(store := None),
         io_log := io_log w @ [FileExists path, GetItem store, WriteFile path old,
                               GetItem store, RemoveItem store]\<rparr>"
  let ?w2 = "?w1\<lparr>io_log := io_log ?w1 @ [FileExists path, ReadFile path]\<rparr>"
  have m: "migrate N store dflt w = (Inr (), ?w1)"
    by (rule migrate_ok [OF contract path nofile legacy wr])
  have "files ?w1 (DocumentsDirPath N @ ''/'' @ fst (getMMKVPath store 0)) = Some old"
    using path by simp
  from fb_get_present [OF this legacy(3), of dflt] path
  have g: "fb_get N (fst (getMMKVPath store 0)) dflt None ?w1 = (Inr d, ?w2)"
    by simp
  from m g have o1: "mmkv_open N store dflt w = (Inr d, ?w2)"
    by (simp add: mmkv_open_def)
  define w2 where "w2 = snd (mmkv_open N store dflt w)"
  from o1 have w2: "files w2 path = Some old" "mmkv w2 store = None"
    "io_log w2 = io_log w @ [FileExists path, GetItem store, WriteFile path old, GetItem store,
                             RemoveItem store, FileExists path, ReadFile path]"
    by (simp_all add: w2_def)
  from w2(1) path
  have f2: "files w2 (DocumentsDirPath N @ ''/'' @ fst (getMMKVPath store 0)) = Some old"
    by simp
  let ?w3 = "w2\<lparr>io_log := io_log w2 @ [FileExists path]\<rparr>"
  from migrate_noop [OF f2, of dflt] path have m2: "migrate N store dflt w2 = (Inr (), ?w3)"
    by simp
  from f2 have "files ?w3 (DocumentsDirPath N @ ''/'' @ fst (getMMKVPath store 0)) = Some old"
    by simp
  from fb_get_present [OF this legacy(3), of dflt] path
  have g2: "fb_get N (fst (getMMKVPath store 0)) dflt None ?w3 =
      (Inr d, w2\<lparr>io_log := io_log w2 @ [FileExists path, FileExists path, ReadFile path]\<rparr>)"
    by simp
  from m2 g2 have o2: "mmkv_open N store dflt w2 =
      (Inr d, w2\<lparr>io_log := io_log w2 @ [FileExists path, FileExists path, ReadFile path]\<rparr>)"
    by (simp add: mmkv_open_def)
  show "fst (mmkv_open N store dflt w) = Inr d"
    by (simp add: o1)
  show "mmkv (snd (mmkv_open N store dflt w)) store = None"
    by (simp add: o1)
  show "files (snd (mmkv_open N store dflt w)) path = Some old"
    by (simp add: o1)
  show "io_log (snd (mmkv_open N store dflt w)) =
          io_log w @ [FileExists path, GetItem store, WriteFile path old, GetItem store,
                      RemoveItem store, FileExists path, ReadFile path]"
    by (simp add: o1)
  show "fst (mmkv_open N store dflt (snd (mmkv_open N store dflt w))) = Inr d"
    using o2 by (simp add: w2_def)
  show "io_log (snd (mmkv_open N store dflt (snd (mmkv_open N store dflt w)))) =
          io_log (snd (mmkv_open N store dflt w)) @
            [FileExists path, FileExists path, ReadFile path]"
    using o2 by (simp add: w2_def)
  show "mmkv (snd (mmkv_open N store dflt (snd (mmkv_open N store dflt w)))) =
          mmkv (snd (mmkv_open N store dflt w))"
    using o2 by (simp add: w2_def)
next
  assume wr: "path \<in> unwritable w"
  from migrate_fail [OF contract path nofile legacy wr, of dflt]
  obtain w1 where m: "migrate N store dflt w = (Inl IOError, w1)" and "mmkv w1 = mmkv w"
    by (cases "migrate N store dflt w") auto
  with legacy show "fst (mmkv_open N store dflt w) = Inl IOError"
    "mmkv (snd (mmkv_open N store dflt w)) store = Some old"
    by (simp_all add: mmkv_open_def fb_get_def)
qed

lemma demo_path: "fst (getMMKVPath ''plugins'' 0) = ''vd_mmkv/plugins''"
  by (simp add: getMMKVPath_def regex_test_def illegal_def ILLEGAL_CHARS_def)

theorem legacy_migration_witness:
  "files demo_world ''/data/files/vd_mmkv/plugins'' = None \<and>
   mmkv demo_world ''plugins'' = Some demo_legacy \<and>
   parse demo_native demo_legacy = Some (JObj [(''a'', JNum 1)]) \<and>
   fst (mmkv_open demo_native ''plugins'' (JObj []) demo_world) = Inr (JObj [(''a'', JNum 1)]) \<and>
   mmkv (snd (mmkv_open demo_native ''plugins'' (JObj []) demo_world)) ''plugins'' = None \<and>
   io_log (snd (mmkv_open demo_native ''plugins'' (JObj []) demo_world)) =
     io_log demo_world @
     [FileExists ''/data/files/vd_mmkv/plugins'', GetItem ''plugins'',
      WriteFile ''/data/files/vd_mmkv/plugins'' demo_legacy, GetItem ''plugins'',
      RemoveItem ''plugins'', FileExists ''/data/files/vd_mmkv/plugins'',
      ReadFile ''/data/files/vd_mmkv/plugins''] \<and>
   fst (mmkv_open demo_native ''plugins'' (JObj [])
          (snd (mmkv_open demo_native ''plugins'' (JObj []) demo_world))) =
     Inr (JObj [(''a'', JNum 1)])"
proof -
  have h1: "documents_path demo_native (filePathFixer demo_native (fst (getMMKVPath ''plugins'' 0)))
      = ''/data/files/vd_mmkv/plugins''"
    by (simp add: demo_path demo_native_def filePathFixer_def)
  have h2: "''/data/files/vd_mmkv/plugins'' =
      DocumentsDirPath demo_native @ ''/'' @ fst (getMMKVPath ''plugins'' 0)"
    by (simp add: demo_path demo_native_def)
  have h3: "files demo_world ''/data/files/vd_mmkv/plugins'' = None"
    by (simp add: demo_world_def)
  have h4: "mmkv demo_world ''plugins'' = Some demo_legacy"
    by (simp add: demo_world_def)
  have h5: "demo_legacy \<noteq> LARGE_VALUE"
    by (simp add: demo_legacy_def LARGE_VALUE_def)
  have h6: "parse demo_native demo_legacy = Some (JObj [(''a'', JNum 1)])"
    by (simp add: demo_native_def)
  have h7: "''/data/files/vd_mmkv/plugins'' \<notin> unwritable demo_world"
    by (simp add: demo_world_def)
  from legacy_migration [OF h1 h2 h3 h4 h5 h6, of "JObj []"] h7 h3 h4 h6
  show ?thesis by blast
qed

section \<open>The claim about the sync adapter\<close>

text \<open>
  Claim C9. A storage session resolves to its root proxy, an object. Whatever callbacks
  are registered before the session resolves, none is called until then and all are
  queued in order; when it resolves they are called once each, in the order they were
  registered; every callback registered afterwards is called at once and the queue stays
  as it was; and the promise, once settled, drains nothing again.
\<close>

theorem await_queue_drained_once:
  "called (fold awaitInit before wrapSync) = [] \<and>
   awaitQueue (fold awaitInit before wrapSync) = before \<and>
   called (fulfil (Ref r) (fold awaitInit before wrapSync)) = before \<and>
   called (fold awaitInit after (fulfil (Ref r) (fold awaitInit before wrapSync))) =
     before @ after \<and>
   awaitQueue (fold awaitInit after (fulfil (Ref r) (fold awaitInit before wrapSync))) =
     before \<and>
   fulfil v (fold awaitInit after (fulfil (Ref r) (fold awaitInit before wrapSync))) =
     fold awaitInit after (fulfil (Ref r) (fold awaitInit before wrapSync))"
proof -
  have q: "called (fold awaitInit cbs s) = called s \<and>
      awaitQueue (fold awaitInit cbs s) = awaitQueue s @ cbs \<and>
      awaited (fold awaitInit cbs s) = awaited s \<and>
      settled (fold awaitInit cbs s) = settled s"
    if "\<not> truthy (awaited s)" for cbs s
    using that by (induction cbs arbitrary: s) (simp_all add: awaitInit_def)
  have c: "called (fold awaitInit cbs s) = called s @ cbs \<and>
      awaitQueue (fold awaitInit cbs s) = awaitQueue s \<and>
      awaited (fold awaitInit cbs s) = awaited s \<and>
      settled (fold awaitInit cbs s) = settled s"
    if "truthy (awaited s)" for cbs s
    using that by (induction cbs arbitrary: s) (simp_all add: awaitInit_def)
  let ?s1 = "fold awaitInit before wrapSync"
  have s1: "called ?s1 = []" "awaitQueue ?s1 = before" "awaited ?s1 = Undefined"
    "\<not> settled ?s1"
    using q [of wrapSync before] by (simp_all add: wrapSync_def)
  let ?s2 = "fulfil (Ref r) ?s1"
  have s2: "called ?s2 = before" "awaitQueue ?s2 = before" "awaited ?s2 = Ref r" "settled ?s2"
    using s1 by (simp_all add: fulfil_def)
  then have "truthy (awaited ?s2)" by simp
  from c [OF this, of after] s2 show ?thesis
    using s1 by (simp add: fulfil_def)
qed

theorem await_queue_drained_once_witness:
  "called (fold awaitInit [7, 8] wrapSync) = [] \<and>
   called (fulfil (Ref demo_root) (fold awaitInit [7, 8] wrapSync)) = [7, 8] \<and>
   called (fold awaitInit [9] (fulfil (Ref demo_root) (fold awaitInit [7, 8] wrapSync))) =
     [7, 8, 9] \<and>
   awaitQueue (fold awaitInit [9] (fulfil (Ref demo_root) (fold awaitInit [7, 8] wrapSync))) =
     [7, 8]"
  using await_queue_drained_once [of "[7, 8]" demo_root "[9]" Undefined]
  by simp

end
